theory Spec2Isabelle
  imports Complex_Main
begin

section \<open>Data model\<close>

text \<open>
  JavaScript numbers are modelled as real numbers: \<open>Math.sqrt\<close>, \<open>Math.cos\<close>,
  \<open>Math.sin\<close> and \<open>Math.PI\<close> are the real functions and the real constant, so
  rounding of IEEE doubles, infinities and NaN are outside the model.

  A bubble is the object built by the snapshot listeners:
  \<^verbatim>\<open>{ id, ts, index, size, gradient }\<close>. The fields \<open>id\<close> and \<open>size\<close> are
  called \<open>bid\<close> and \<open>bsize\<close> here, because \<open>id\<close> and \<open>size\<close> are constants of HOL.
  The timestamp is kept as an opaque optional integer.
\<close>

record bubble =
  bid :: string
  ts :: "int option"
  index :: nat
  bsize :: real
  gradient :: string

text \<open>
  The value returned for each bubble, \<^verbatim>\<open>{ ...b, x, y, cx, cy }\<close>: every field of the
  input and the four position fields (\<open>xpos\<close>, \<open>ypos\<close> the top-left corner of the
  bounding box, \<open>cxpos\<close>, \<open>cypos\<close> the centre).
\<close>

record placed_bubble = bubble +
  xpos :: real
  ypos :: real
  cxpos :: real
  cypos :: real

text \<open>An entry \<^verbatim>\<open>{ cx, cy, r }\<close> of the local array \<open>placed\<close>.\<close>

record disc =
  dcx :: real
  dcy :: real
  dr :: real

section \<open>Layout engine, ring scan (the function with the \<open>cyOffset\<close> parameter)\<close>

text \<open>
  The callback of \<^verbatim>\<open>placed.some\<close>:
  \<^verbatim>\<open>Math.sqrt(dx * dx + dy * dy) < r + p.r + 6\<close>.
\<close>

definition overlaps :: "real \<Rightarrow> real \<Rightarrow> real \<Rightarrow> disc list \<Rightarrow> bool" where
  "overlaps px py r placed =
     list_ex (\<lambda>p. let dx = px - dcx p; dy = py - dcy p
                   in sqrt (dx * dx + dy * dy) < r + dr p + 6) placed"

text \<open>
  The inner loop \<^verbatim>\<open>for (let a = 0; a < angleSteps && !found; a++)\<close>: the result is
  the value of \<open>found\<close> when the loop ends, \<open>None\<close> for \<open>null\<close>.
\<close>

function scanAngles ::
  "real \<Rightarrow> real \<Rightarrow> real \<Rightarrow> disc list \<Rightarrow> real \<Rightarrow> nat \<Rightarrow> nat \<Rightarrow> (real \<times> real) option" where
  "scanAngles cx cy r placed ring angleSteps a =
     (if a < angleSteps then
        (let angle = (real a / real angleSteps) * 2 * pi;
             px = cx + cos angle * ring;
             py = cy + sin angle * ring
         in if \<not> overlaps px py r placed then Some (px, py)
            else scanAngles cx cy r placed ring angleSteps (a + 1))
      else None)"
  by pat_completeness auto
termination
  by (relation "measure (\<lambda>(cx, cy, r, placed, ring, angleSteps, a). angleSteps - a)") auto

declare scanAngles.simps [simp del]

text \<open>\<^verbatim>\<open>Math.max(36, Math.ceil(2 * Math.PI * ring / 4))\<close>\<close>

definition angleStepsOf :: "real \<Rightarrow> nat" where
  "angleStepsOf ring = nat (max 36 \<lceil>2 * pi * ring / 4\<rceil>)"

text \<open>
  The outer loop \<^verbatim>\<open>for (let ring = minStartRadius; ring <= 800 && !found; ring += 2)\<close>.
\<close>

function scanRings ::
  "real \<Rightarrow> real \<Rightarrow> real \<Rightarrow> disc list \<Rightarrow> real \<Rightarrow> (real \<times> real) option" where
  "scanRings cx cy r placed ring =
     (if ring \<le> 800 then
        (case scanAngles cx cy r placed ring (angleStepsOf ring) 0 of
           Some p \<Rightarrow> Some p
         | None \<Rightarrow> scanRings cx cy r placed (ring + 2))
      else None)"
  by pat_completeness auto
termination
  by (relation "measure (\<lambda>(cx, cy, r, placed, ring). nat \<lceil>802 - ring\<rceil>)") (auto, linarith)

declare scanRings.simps [simp del]

text \<open>
  The body of the callback of \<^verbatim>\<open>bubbles.map\<close>, as a function of the array
  \<open>placed\<close> at the time of the call: the returned object and the entry pushed on
  \<open>placed\<close>.
\<close>

definition placeOne :: "real \<Rightarrow> real \<Rightarrow> disc list \<Rightarrow> bubble \<Rightarrow> placed_bubble \<times> disc" where
  "placeOne cx cy placed b =
     (let r = bsize b / 2 in
      if length placed = 0 then
        (\<lparr>bid = bid b, ts = ts b, index = index b, bsize = bsize b, gradient = gradient b,
          xpos = cx - r, ypos = cy - r, cxpos = cx, cypos = cy\<rparr>,
         \<lparr>dcx = cx, dcy = cy, dr = r\<rparr>)
      else
        (let minStartRadius = r + 6;
             found = scanRings cx cy r placed minStartRadius;
             px = (case found of Some p \<Rightarrow> fst p | None \<Rightarrow> cx + real (length placed) * 10);
             py = (case found of Some p \<Rightarrow> snd p | None \<Rightarrow> cy + real (length placed) * 10)
         in (\<lparr>bid = bid b, ts = ts b, index = index b, bsize = bsize b, gradient = gradient b,
              xpos = px - r, ypos = py - r, cxpos = px, cypos = py\<rparr>,
             \<lparr>dcx = px, dcy = py, dr = r\<rparr>)))"

text \<open>\<^verbatim>\<open>bubbles.map\<close> with the array \<open>placed\<close> threaded through the calls.\<close>

fun placeAll :: "real \<Rightarrow> real \<Rightarrow> disc list \<Rightarrow> bubble list \<Rightarrow> placed_bubble list" where
  "placeAll cx cy placed [] = []"
| "placeAll cx cy placed (b # bs) =
     (let (out, d) = placeOne cx cy placed b
      in out # placeAll cx cy (placed @ [d]) bs)"

text \<open>
  \<^verbatim>\<open>function layoutBubbles(bubbles, containerW, containerH, cyOffset = 0)\<close>: a call
  with three arguments is \<open>layoutBubbles bubbles containerW containerH 0\<close>.
\<close>

definition layoutBubbles :: "bubble list \<Rightarrow> real \<Rightarrow> real \<Rightarrow> real \<Rightarrow> placed_bubble list" where
  "layoutBubbles bubbles containerW containerH cyOffset =
     (if length bubbles = 0 then []
      else (let cx = containerW / 2;
                cy = containerH / 2 + cyOffset
            in placeAll cx cy [] bubbles))"

section \<open>Layout engine, ring scan with the fixed vertical bias\<close>

text \<open>
  The earlier ring-scan function has no \<open>cyOffset\<close> parameter and the centre
  \<^verbatim>\<open>const cy = containerH / 2 - 10\<close>; its callback is the same, character for
  character, as the one modelled by \<open>placeOne\<close>.
\<close>

definition layoutBubbles_fixed :: "bubble list \<Rightarrow> real \<Rightarrow> real \<Rightarrow> placed_bubble list" where
  "layoutBubbles_fixed bubbles containerW containerH =
     (if length bubbles = 0 then []
      else (let cx = containerW / 2;
                cy = containerH / 2 - 10
            in placeAll cx cy [] bubbles))"

section \<open>Layout engine, golden-angle spiral\<close>

text \<open>
  The callback of \<^verbatim>\<open>placed.some\<close> of the spiral function; there \<open>placed\<close> holds the
  objects already laid out: \<^verbatim>\<open>const minDist = r + p.size / 2 + 4\<close>.
\<close>

definition overlaps_spiral :: "real \<Rightarrow> real \<Rightarrow> real \<Rightarrow> placed_bubble list \<Rightarrow> bool" where
  "overlaps_spiral px py r placed =
     list_ex (\<lambda>p. let dx = px - cxpos p; dy = py - cypos p;
                       minDist = r + bsize p / 2 + 4
                   in sqrt (dx * dx + dy * dy) < minDist) placed"

definition GOLDEN_ANGLE :: real where
  "GOLDEN_ANGLE = 2.39996"

text \<open>
  \<^verbatim>\<open>for (let step = 1; step <= 300 && !found; step++)\<close>: the result is the position
  pushed by the loop, \<open>None\<close> when \<open>found\<close> is still false at the end.
\<close>

function spiralSteps ::
  "real \<Rightarrow> real \<Rightarrow> bubble \<Rightarrow> nat \<Rightarrow> placed_bubble list \<Rightarrow> nat \<Rightarrow> (real \<times> real) option" where
  "spiralSteps cx cy b i placed step =
     (if step \<le> 300 then
        (let radius = sqrt (real i) * bsize b * 0.62 + (real step - 1) * 4;
             angle = real i * GOLDEN_ANGLE + (real step - 1) * 0.15;
             px = cx + cos angle * radius;
             py = cy + sin angle * radius
         in if \<not> overlaps_spiral px py (bsize b / 2) placed then Some (px, py)
            else spiralSteps cx cy b i placed (step + 1))
      else None)"
  by pat_completeness auto
termination
  by (relation "measure (\<lambda>(cx, cy, b, i, placed, step). 301 - step)") auto

declare spiralSteps.simps [simp del]

text \<open>The body of the callback of \<^verbatim>\<open>bubbles.forEach((b, i) => ...)\<close>: the object pushed.\<close>

definition spiralOne :: "real \<Rightarrow> real \<Rightarrow> placed_bubble list \<Rightarrow> nat \<Rightarrow> bubble \<Rightarrow> placed_bubble" where
  "spiralOne cx cy placed i b =
     (let r = bsize b / 2 in
      if i = 0 then
        \<lparr>bid = bid b, ts = ts b, index = index b, bsize = bsize b, gradient = gradient b,
         xpos = cx - r, ypos = cy - r, cxpos = cx, cypos = cy\<rparr>
      else
        (case spiralSteps cx cy b i placed 1 of
           Some p \<Rightarrow>
             \<lparr>bid = bid b, ts = ts b, index = index b, bsize = bsize b, gradient = gradient b,
              xpos = fst p - r, ypos = snd p - r, cxpos = fst p, cypos = snd p\<rparr>
         | None \<Rightarrow>
             (let radius = sqrt (real i) * bsize b * 0.8;
                  angle = real i * GOLDEN_ANGLE;
                  px = cx + cos angle * radius;
                  py = cy + sin angle * radius
              in \<lparr>bid = bid b, ts = ts b, index = index b, bsize = bsize b,
                   gradient = gradient b,
                   xpos = px - r, ypos = py - r, cxpos = px, cypos = py\<rparr>)))"

fun spiralAll ::
  "real \<Rightarrow> real \<Rightarrow> placed_bubble list \<Rightarrow> nat \<Rightarrow> bubble list \<Rightarrow> placed_bubble list" where
  "spiralAll cx cy placed i [] = placed"
| "spiralAll cx cy placed i (b # bs) =
     spiralAll cx cy (placed @ [spiralOne cx cy placed i b]) (i + 1) bs"

definition layoutBubbles_spiral :: "bubble list \<Rightarrow> real \<Rightarrow> real \<Rightarrow> placed_bubble list" where
  "layoutBubbles_spiral bubbles containerW containerH =
     (if length bubbles = 0 then []
      else (let cx = containerW / 2;
                cy = containerH / 2 - 20
            in spiralAll cx cy [] 0 bubbles))"

section \<open>Notions used to state the properties of the layout\<close>

text \<open>The entry of \<open>placed\<close> that belongs to a returned object.\<close>

definition discOf :: "placed_bubble \<Rightarrow> disc" where
  "discOf p = \<lparr>dcx = cxpos p, dcy = cypos p, dr = bsize p / 2\<rparr>"

text \<open>Euclidean distance of the centres of two placed circles.\<close>

definition centreDist :: "placed_bubble \<Rightarrow> placed_bubble \<Rightarrow> real" where
  "centreDist A B = sqrt ((cxpos A - cxpos B)\<^sup>2 + (cypos A - cypos B)\<^sup>2)"

text \<open>
  The value of the variable \<open>found\<close> after the two loops, in the call of the ring-scan
  callback for the bubble at index \<open>j\<close>: at that moment \<open>placed\<close> holds the circles of
  the \<open>j\<close> results before it (lemma \<open>placeAll_nth\<close> below: the result at index \<open>j\<close> is
  \<open>placeOne\<close> applied to exactly this array).
\<close>

definition foundAt :: "real \<Rightarrow> real \<Rightarrow> bubble list \<Rightarrow> nat \<Rightarrow> (real \<times> real) option" where
  "foundAt cx cy bubbles j =
     scanRings cx cy (bsize (bubbles ! j) / 2)
       (map discOf (take j (placeAll cx cy [] bubbles))) (bsize (bubbles ! j) / 2 + 6)"

text \<open>The search budget suffices: every search of the ring scan ends with a position.\<close>

definition ringBudgetSuffices :: "bubble list \<Rightarrow> real \<Rightarrow> real \<Rightarrow> real \<Rightarrow> bool" where
  "ringBudgetSuffices bubbles containerW containerH cyOffset =
     list_all (\<lambda>j. foundAt (containerW / 2) (containerH / 2 + cyOffset) bubbles j \<noteq> None)
       [1..<length bubbles]"

text \<open>
  The same two notions for the spiral: the result of the 300 steps for bubble \<open>j\<close>
  (lemma \<open>spiralAll_nth\<close> below).
\<close>

definition foundAt_spiral :: "real \<Rightarrow> real \<Rightarrow> bubble list \<Rightarrow> nat \<Rightarrow> (real \<times> real) option" where
  "foundAt_spiral cx cy bubbles j =
     spiralSteps cx cy (bubbles ! j) j (take j (spiralAll cx cy [] 0 bubbles)) 1"

definition spiralBudgetSuffices :: "bubble list \<Rightarrow> real \<Rightarrow> real \<Rightarrow> bool" where
  "spiralBudgetSuffices bubbles containerW containerH =
     list_all (\<lambda>j. foundAt_spiral (containerW / 2) (containerH / 2 - 20) bubbles j \<noteq> None)
       [1..<length bubbles]"

section \<open>Bubble sizing\<close>

definition BASE_SIZES :: "real list" where
  "BASE_SIZES = [92, 112, 76, 130, 88, 106, 118, 80, 100, 96, 122, 84]"

text \<open>\<^verbatim>\<open>Math.round\<close>: the nearest integer, a half rounded up.\<close>

definition js_round :: "real \<Rightarrow> real" where
  "js_round v = real_of_int \<lfloor>v + 1 / 2\<rfloor>"

text \<open>
  \<^verbatim>\<open>function sizeForIndex(i, scale = 1)\<close>; the index is reduced modulo the length of
  the table, so the read is always in range.
\<close>

definition sizeForIndex :: "nat \<Rightarrow> real \<Rightarrow> real" where
  "sizeForIndex i scale = js_round (BASE_SIZES ! (i mod length BASE_SIZES) * scale)"

section \<open>Incremental renderer\<close>

text \<open>
  The part of the document that \<open>renderBubbles\<close> reads and writes. A container is
  the element found by \<^verbatim>\<open>document.getElementById\<close>: its measured size and the list of
  the elements in it, in document order. An element has its class names, its \<open>data-id\<close>
  attribute, the inline style properties the renderer sets (\<open>None\<close>: not set; the
  numbers are the pixel values) and, when it contains one, its first \<open>.bubble\<close>
  element, which is what \<^verbatim>\<open>existing.querySelector('.bubble')\<close> returns. The elements
  matched by the selectors are taken to be listed in \<open>children\<close>: the renderer only
  ever appends anchors to the container itself. The time label and its listener
  (\<open>attachTimeLabel\<close>) are not part of the model.
\<close>

record inner_el =
  background :: string
  float_delay :: real

record node =
  classes :: "string list"
  data_id :: "string option"
  style_left :: "real option"
  style_top :: "real option"
  style_width :: "real option"
  style_height :: "real option"
  style_bubble_size :: "real option"
  inner :: "inner_el option"

record container =
  rect_width :: real
  rect_height :: real
  offsetWidth :: real
  offsetHeight :: real
  children :: "node list"

text \<open>
  The state: the document (container id to element) and the two module-level objects
  \<^verbatim>\<open>const renderedIds = {}\<close> and \<^verbatim>\<open>const lastData = {}\<close>.
\<close>

record world =
  document :: "string \<rightharpoonup> container"
  renderedIds :: "string \<rightharpoonup> string set"
  lastData :: "string \<rightharpoonup> bubble list"

text \<open>
  What a render pass does to the element list of the container, in order:
  \<^verbatim>\<open>node.remove()\<close>, \<^verbatim>\<open>el.appendChild(anchor)\<close>, and the update of an existing
  anchor in place. Each carries the \<open>data-id\<close> of the element.
\<close>

datatype dom_event = Removed string | Created string | Updated string

text \<open>
  The \<open>data-id\<close> under which the selectors see an element: \<open>.bubble-anchor[data-id]\<close>
  matches when it is not \<open>None\<close>, and the attribute selector
  \<open>.bubble-anchor[data-id="v"]\<close> when it is \<open>Some v\<close>.
\<close>

definition anchorId :: "node \<Rightarrow> string option" where
  "anchorId n = (if ''bubble-anchor'' \<in> set (classes n) then data_id n else None)"

text \<open>
  \<^verbatim>\<open>el.querySelectorAll('.bubble-anchor[data-id]').forEach(node => { if
  (!currentIds.has(node.dataset.id)) { node.remove(); known.delete(node.dataset.id); } })\<close>
  over the element list: the elements left, the known-set and the removals.
\<close>

fun removeStale ::
  "string set \<Rightarrow> node list \<Rightarrow> string set \<Rightarrow> node list \<times> string set \<times> dom_event list" where
  "removeStale currentIds [] known = ([], known, [])"
| "removeStale currentIds (n # ns) known =
     (case anchorId n of
        None \<Rightarrow>
          (let (ns', known', ev) = removeStale currentIds ns known in (n # ns', known', ev))
      | Some i \<Rightarrow>
          if i \<notin> currentIds then
            (let (ns', known', ev) = removeStale currentIds ns (known - {i})
             in (ns', known', Removed i # ev))
          else
            (let (ns', known', ev) = removeStale currentIds ns known in (n # ns', known', ev)))"

text \<open>
  The lookup \<^verbatim>\<open>el.querySelector(`.bubble-anchor[data-id="${b.id}"]`)\<close> puts the id
  into the selector text as it is, between double quotes. When the id holds none of the
  characters that are special in a quoted CSS string (the double quote, the backslash, the
  line breaks LF, CR and FF, and NUL), the text is the attribute selector for exactly that
  value. The ids that Firestore generates for \<open>addDoc\<close> are letters and digits, so they
  are of this kind. For any other id the selector is a different one: it may not parse,
  and then \<open>querySelector\<close> throws, or it matches other elements. That case is not
  modelled: the pass stops with \<open>SelectorNotModelled\<close> and no statement is made about
  the state.
\<close>

definition selectorSafe :: "string \<Rightarrow> bool" where
  "selectorSafe i =
     list_all (\<lambda>c. c \<notin> set [CHR 0x22, CHR 0x5C, CHR 0x0A, CHR 0x0D, CHR 0x0C, CHR 0x00]) i"

datatype render_error = SelectorNotModelled string

text \<open>The assignments of the branch \<^verbatim>\<open>if (existing)\<close>.\<close>

definition updateExisting :: "placed_bubble \<Rightarrow> node \<Rightarrow> node" where
  "updateExisting b existing =
     existing\<lparr>style_left := Some (xpos b), style_top := Some (ypos b),
              style_width := Some (bsize b), style_height := Some (bsize b),
              style_bubble_size := Some (bsize b),
              inner := map_option (\<lambda>e. e\<lparr>background := gradient b\<rparr>) (inner existing)\<rparr>"

text \<open>The element built by the \<^verbatim>\<open>else\<close> branch.\<close>

definition newAnchor :: "placed_bubble \<Rightarrow> node" where
  "newAnchor b =
     \<lparr>classes = [''bubble-anchor''], data_id = Some (bid b),
      style_left = Some (xpos b), style_top = Some (ypos b),
      style_width = Some (bsize b), style_height = Some (bsize b),
      style_bubble_size = Some (bsize b),
      inner = Some \<lparr>background = gradient b, float_delay = real (index b mod 7) * 0.65\<rparr>\<rparr>"

text \<open>Apply \<open>f\<close> to the first element that satisfies \<open>P\<close>, the one \<open>querySelector\<close> returns.\<close>

fun updateFirst :: "(node \<Rightarrow> bool) \<Rightarrow> (node \<Rightarrow> node) \<Rightarrow> node list \<Rightarrow> node list" where
  "updateFirst P f [] = []"
| "updateFirst P f (n # ns) = (if P n then f n # ns else n # updateFirst P f ns)"

text \<open>
  \<^verbatim>\<open>laid.forEach((b) => { ... })\<close>: the elements, the known-set and what was done,
  or the id at which the selector leaves the model.
\<close>

fun renderEach ::
  "node list \<Rightarrow> string set \<Rightarrow> placed_bubble list \<Rightarrow>
     render_error + (node list \<times> string set \<times> dom_event list)" where
  "renderEach nodes known [] = Inr (nodes, known, [])"
| "renderEach nodes known (b # laid) =
     (if \<not> selectorSafe (bid b) then Inl (SelectorNotModelled (bid b))
      else
        (case find (\<lambda>n. anchorId n = Some (bid b)) nodes of
           Some existing \<Rightarrow>
             (case renderEach
                     (updateFirst (\<lambda>n. anchorId n = Some (bid b)) (updateExisting b) nodes)
                     known laid of
                Inl e \<Rightarrow> Inl e
              | Inr (nodes', known', ev) \<Rightarrow> Inr (nodes', known', Updated (bid b) # ev))
         | None \<Rightarrow>
             (case renderEach (nodes @ [newAnchor b]) (insert (bid b) known) laid of
                Inl e \<Rightarrow> Inl e
              | Inr (nodes', known', ev) \<Rightarrow> Inr (nodes', known', Created (bid b) # ev))))"

text \<open>
  \<^verbatim>\<open>function renderBubbles(bubbleData, containerId)\<close>: the new state and the list of
  what the pass did to the elements of the container. \<^verbatim>\<open>rect.width || el.offsetWidth
  || 900\<close> takes the first operand that is not zero.
\<close>

definition renderBubbles ::
  "bubble list \<Rightarrow> string \<Rightarrow> world \<Rightarrow> render_error + (world \<times> dom_event list)" where
  "renderBubbles bubbleData containerId w =
     (case document w containerId of
        None \<Rightarrow> Inr (w, [])
      | Some el \<Rightarrow>
          (let containerW = (if rect_width el \<noteq> 0 then rect_width el
                             else if offsetWidth el \<noteq> 0 then offsetWidth el else 900);
               containerH = (if rect_height el \<noteq> 0 then rect_height el
                             else if offsetHeight el \<noteq> 0 then offsetHeight el else 680);
               scale = min containerW containerH / 832;
               isMainField = (containerId = ''theirBubbleField'');
               cyOffset = (if isMainField then js_round (- 0.10 * containerH) else 0);
               scaledData = map (\<lambda>(i, b). b\<lparr>bsize := sizeForIndex i scale\<rparr>)
                              (enumerate 0 bubbleData);
               laid = layoutBubbles scaledData containerW containerH cyOffset;
               known = (case renderedIds w containerId of None \<Rightarrow> {} | Some k \<Rightarrow> k);
               currentIds = set (map bid bubbleData);
               (nodes1, known1, ev1) = removeStale currentIds (children el) known
           in case renderEach nodes1 known1 laid of
                Inl e \<Rightarrow> Inl e
              | Inr (nodes2, known2, ev2) \<Rightarrow>
                  Inr (w\<lparr>document := (document w)(containerId \<mapsto> el\<lparr>children := nodes2\<rparr>),
                         renderedIds := (renderedIds w)(containerId \<mapsto> known2),
                         lastData := (lastData w)(containerId \<mapsto> bubbleData)\<rparr>,
                       ev1 @ ev2)))"

section \<open>Notions used to state the properties of the renderer\<close>

text \<open>The \<open>data-id\<close>s of the anchors in an element list, in document order.\<close>

fun anchorIds :: "node list \<Rightarrow> string list" where
  "anchorIds [] = []"
| "anchorIds (n # ns) =
     (case anchorId n of Some i \<Rightarrow> i # anchorIds ns | None \<Rightarrow> anchorIds ns)"

text \<open>The known-set of a container (empty before the first pass) and its elements.\<close>

definition knownSet :: "world \<Rightarrow> string \<Rightarrow> string set" where
  "knownSet w containerId = (case renderedIds w containerId of None \<Rightarrow> {} | Some k \<Rightarrow> k)"

definition containerNodes :: "world \<Rightarrow> string \<Rightarrow> node list" where
  "containerNodes w containerId =
     (case document w containerId of None \<Rightarrow> [] | Some el \<Rightarrow> children el)"

text \<open>
  The known-set tracks the anchors of the container: one anchor for each id and the
  known-set is the set of their ids.
\<close>

definition synced :: "world \<Rightarrow> string \<Rightarrow> bool" where
  "synced w containerId \<longleftrightarrow>
     distinct (anchorIds (containerNodes w containerId)) \<and>
     knownSet w containerId = set (anchorIds (containerNodes w containerId))"

text \<open>
  The states of the renderer: at the start \<open>renderedIds\<close> is the empty object and no
  container holds an anchor; every completed pass leads to another state.
\<close>

inductive reachable :: "world \<Rightarrow> bool" where
  initial:
    "renderedIds w = Map.empty \<Longrightarrow>
     (\<And>containerId el. document w containerId = Some el \<Longrightarrow> anchorIds (children el) = []) \<Longrightarrow>
     reachable w"
| pass:
    "reachable w \<Longrightarrow> renderBubbles bubbleData containerId w = Inr (w', ev) \<Longrightarrow> reachable w'"

text \<open>
  The layout a pass computes for a snapshot in a container: the measured size, the scale,
  the offset and the scaled sizes as \<open>renderBubbles\<close> derives them.
\<close>

definition passLayout :: "bubble list \<Rightarrow> string \<Rightarrow> container \<Rightarrow> placed_bubble list" where
  "passLayout bubbleData containerId el =
     (let containerW = (if rect_width el \<noteq> 0 then rect_width el
                        else if offsetWidth el \<noteq> 0 then offsetWidth el else 900);
          containerH = (if rect_height el \<noteq> 0 then rect_height el
                        else if offsetHeight el \<noteq> 0 then offsetHeight el else 680);
          scale = min containerW containerH / 832;
          isMainField = (containerId = ''theirBubbleField'');
          cyOffset = (if isMainField then js_round (- 0.10 * containerH) else 0);
          scaledData = map (\<lambda>(i, b). b\<lparr>bsize := sizeForIndex i scale\<rparr>)
                         (enumerate 0 bubbleData)
      in layoutBubbles scaledData containerW containerH cyOffset)"

text \<open>The elements the removal loop leaves in the container.\<close>

definition keptNodes :: "string set \<Rightarrow> node list \<Rightarrow> node list" where
  "keptNodes cur ns = filter (\<lambda>n. case anchorId n of None \<Rightarrow> True | Some i \<Rightarrow> i \<in> cur) ns"

text \<open>The loop over the placements when every one of them takes the update branch.\<close>

definition updateAll :: "placed_bubble list \<Rightarrow> node list \<Rightarrow> node list" where
  "updateAll laid ns =
     foldl (\<lambda>ns b. updateFirst (\<lambda>n. anchorId n = Some (bid b)) (updateExisting b) ns) ns laid"

section \<open>Example inputs\<close>

text \<open>
  Two circles of diameter 100; a circle of diameter 100 after one so large that no position
  within the budget is clear of it; a single circle of diameter 100. Then the main field,
  900 by 680 and empty; a state before the first pass; a state after earlier passes, with
  the anchors \<open>old\<close> and \<open>a\<close>; and a state before the first pass in a side panel.
\<close>

definition twoBubbles :: "bubble list" where
  "twoBubbles =
     [\<lparr>bid = ''a'', ts = None, index = 0, bsize = 100, gradient = ''g''\<rparr>,
      \<lparr>bid = ''b'', ts = None, index = 1, bsize = 100, gradient = ''g''\<rparr>]"

definition bigBubbles :: "bubble list" where
  "bigBubbles =
     [\<lparr>bid = ''a'', ts = None, index = 0, bsize = 10000, gradient = ''g''\<rparr>,
      \<lparr>bid = ''b'', ts = None, index = 1, bsize = 100, gradient = ''g''\<rparr>]"

definition circle100 :: bubble where
  "circle100 = \<lparr>bid = ''a'', ts = None, index = 0, bsize = 100, gradient = ''g''\<rparr>"

definition emptyField :: container where
  "emptyField = \<lparr>rect_width = 900, rect_height = 680, offsetWidth = 900, offsetHeight = 680,
                 children = []\<rparr>"

definition freshWorld :: world where
  "freshWorld = \<lparr>document = [''theirBubbleField'' \<mapsto> emptyField],
                 renderedIds = Map.empty, lastData = Map.empty\<rparr>"



definition panelWorld :: world where
  "panelWorld = \<lparr>document = [''myBubbleField'' \<mapsto> emptyField],
                 renderedIds = Map.empty, lastData = Map.empty\<rparr>"

section \<open>The layout engine: structure of the result\<close>

lemma snd_placeOne: "snd (placeOne cx cy placed b) = discOf (fst (placeOne cx cy placed b))"
  by (simp add: placeOne_def discOf_def Let_def)

lemma placeAll_append:
  "placeAll cx cy placed (bs @ cs) =
     placeAll cx cy placed bs @ placeAll cx cy (placed @ map discOf (placeAll cx cy placed bs)) cs"
  by (induction bs arbitrary: placed) (simp_all add: split_beta snd_placeOne Let_def)

lemma length_placeAll: "length (placeAll cx cy placed bs) = length bs"
  by (induction bs arbitrary: placed) (simp_all add: split_beta Let_def)

lemma placeAll_nth:
  assumes "i < length bs"
  shows "placeAll cx cy placed bs ! i =
           fst (placeOne cx cy (placed @ map discOf (take i (placeAll cx cy placed bs))) (bs ! i))"
proof -
  have bs: "bs = take i bs @ (bs ! i) # drop (Suc i) bs"
    using assms by (simp add: id_take_nth_drop)
  let ?pre = "placeAll cx cy placed (take i bs)"
  have len: "length ?pre = i" using assms by (simp add: length_placeAll)
  have "placeAll cx cy placed bs = ?pre @ placeAll cx cy (placed @ map discOf ?pre) ((bs ! i) # drop (Suc i) bs)"
    using placeAll_append[of cx cy placed "take i bs" "(bs ! i) # drop (Suc i) bs"] bs by simp
  then have eq: "placeAll cx cy placed bs =
      ?pre @ fst (placeOne cx cy (placed @ map discOf ?pre) (bs ! i)) # 
        placeAll cx cy (placed @ map discOf ?pre @ [snd (placeOne cx cy (placed @ map discOf ?pre) (bs ! i))]) (drop (Suc i) bs)"
    by (simp add: split_beta Let_def)
  have tk: "take i (placeAll cx cy placed bs) = ?pre"
    by (subst eq) (simp add: len)
  have "placeAll cx cy placed bs ! i = fst (placeOne cx cy (placed @ map discOf ?pre) (bs ! i))"
    by (subst eq) (simp add: nth_append len)
  then show ?thesis by (simp add: tk)
qed

lemma scanAngles_Some:
  "scanAngles cx cy r placed ring n a = Some p \<Longrightarrow> \<not> overlaps (fst p) (snd p) r placed"
proof (induction cx cy r placed ring n a rule: scanAngles.induct)
  case (1 cx cy r placed ring n a)
  then show ?case
    by (subst (asm) (2) scanAngles.simps) (auto simp: Let_def split: if_splits)
qed

lemma scanRings_Some:
  "scanRings cx cy r placed ring = Some p \<Longrightarrow> \<not> overlaps (fst p) (snd p) r placed"
proof (induction cx cy r placed ring rule: scanRings.induct)
  case (1 cx cy r placed ring)
  then show ?case
    by (subst (asm) (2) scanRings.simps) (auto simp: Let_def scanAngles_Some split: if_splits option.splits)
qed

lemma length_spiralAll: "length (spiralAll cx cy placed i bs) = length placed + length bs"
  by (induction bs arbitrary: placed i) simp_all

lemma spiralAll_append:
  "spiralAll cx cy placed i (bs @ cs) =
     spiralAll cx cy (spiralAll cx cy placed i bs) (i + length bs) cs"
  by (induction bs arbitrary: placed i) simp_all

lemma spiralAll_prefix: "take (length placed) (spiralAll cx cy placed i bs) = placed"
proof (induction bs arbitrary: placed i)
  case Nil
  show ?case by simp
next
  case (Cons b bs)
  have "take (length placed) (take (length (placed @ [spiralOne cx cy placed i b]))
          (spiralAll cx cy (placed @ [spiralOne cx cy placed i b]) (i + 1) bs)) = placed"
    by (simp only: Cons.IH) simp
  then show ?case by (simp add: min_def)
qed

lemma spiralAll_nth:
  assumes "k < length bs"
  shows "spiralAll cx cy [] 0 bs ! k =
           spiralOne cx cy (take k (spiralAll cx cy [] 0 bs)) k (bs ! k)"
proof -
  have bs: "bs = take k bs @ (bs ! k) # drop (Suc k) bs"
    using assms by (simp add: id_take_nth_drop)
  let ?pre = "spiralAll cx cy [] 0 (take k bs)"
  let ?mid = "?pre @ [spiralOne cx cy ?pre k (bs ! k)]"
  have len: "length ?pre = k" using assms by (simp add: length_spiralAll)
  have "spiralAll cx cy [] 0 bs = spiralAll cx cy ?pre (0 + length (take k bs)) ((bs ! k) # drop (Suc k) bs)"
    using spiralAll_append[of cx cy "[]" 0 "take k bs" "(bs ! k) # drop (Suc k) bs"] bs by simp
  then have eq: "spiralAll cx cy [] 0 bs = spiralAll cx cy ?mid (k + 1) (drop (Suc k) bs)"
    using assms by simp
  have "take (length ?mid) (spiralAll cx cy [] 0 bs) = ?mid"
    by (subst eq) (rule spiralAll_prefix)
  then have tk: "take (Suc k) (spiralAll cx cy [] 0 bs) = ?mid"
    by (simp add: len)
  then have "take k (take (Suc k) (spiralAll cx cy [] 0 bs)) = take k ?mid" by simp
  then have tk': "take k (spiralAll cx cy [] 0 bs) = ?pre" by (simp add: len)
  have "k < length (spiralAll cx cy [] 0 bs)" using assms by (simp add: length_spiralAll)
  then have "spiralAll cx cy [] 0 bs ! k = take (Suc k) (spiralAll cx cy [] 0 bs) ! k" by simp
  also have "\<dots> = spiralOne cx cy ?pre k (bs ! k)"
    by (simp only: tk) (simp add: nth_append len)
  finally show ?thesis by (simp add: tk')
qed

lemma spiralSteps_Some:
  "spiralSteps cx cy b i placed step = Some p \<Longrightarrow>
     \<not> overlaps_spiral (fst p) (snd p) (bsize b / 2) placed"
proof (induction cx cy b i placed step rule: spiralSteps.induct)
  case (1 cx cy b i placed step)
  then show ?case
    by (subst (asm) (2) spiralSteps.simps) (auto simp: Let_def split: if_splits)
qed

lemma centreDist_sym: "centreDist A B = centreDist B A"
  by (simp add: centreDist_def power2_commute)

lemma ring_clear:
  assumes ij: "i < j" and j: "j < length bs" and f: "foundAt cx cy bs j \<noteq> None"
  shows "bsize (placeAll cx cy [] bs ! i) / 2 + bsize (placeAll cx cy [] bs ! j) / 2 + 6
           \<le> centreDist (placeAll cx cy [] bs ! i) (placeAll cx cy [] bs ! j)"
proof -
  let ?L = "placeAll cx cy [] bs"
  let ?placed = "map discOf (take j ?L)"
  let ?r = "bsize (bs ! j) / 2"
  obtain p where p: "scanRings cx cy ?r ?placed (?r + 6) = Some p"
    using f by (auto simp: foundAt_def)
  have lenL: "length ?L = length bs" by (rule length_placeAll)
  have lenp: "length ?placed = j" using j by (simp add: lenL)
  have Lj: "?L ! j = fst (placeOne cx cy ?placed (bs ! j))"
    using placeAll_nth[OF j, of cx cy "[]"] by simp
  have pos: "cxpos (?L ! j) = fst p" "cypos (?L ! j) = snd p" "bsize (?L ! j) = bsize (bs ! j)"
    using ij lenp p by (simp_all add: Lj placeOne_def Let_def)
  have "\<not> overlaps (fst p) (snd p) ?r ?placed" using scanRings_Some[OF p] .
  moreover have "discOf (?L ! i) \<in> set ?placed"
  proof -
    have "?placed ! i = discOf (?L ! i)" using ij j by (simp add: lenL)
    then show ?thesis using ij lenp by (metis nth_mem)
  qed
  ultimately have "\<not> (sqrt ((fst p - cxpos (?L ! i)) * (fst p - cxpos (?L ! i)) +
                          (snd p - cypos (?L ! i)) * (snd p - cypos (?L ! i)))
                      < ?r + bsize (?L ! i) / 2 + 6)"
    by (auto simp: overlaps_def list_ex_iff discOf_def Let_def)
  then show ?thesis
    by (simp add: centreDist_def pos power2_eq_square power2_commute[of "cxpos (?L ! i)"] 
         power2_commute[of "cypos (?L ! i)"] algebra_simps)
qed

lemma spiral_clear:
  assumes ij: "i < j" and j: "j < length bs" and f: "foundAt_spiral cx cy bs j \<noteq> None"
  shows "bsize (spiralAll cx cy [] 0 bs ! i) / 2 + bsize (spiralAll cx cy [] 0 bs ! j) / 2 + 4
           \<le> centreDist (spiralAll cx cy [] 0 bs ! i) (spiralAll cx cy [] 0 bs ! j)"
proof -
  let ?L = "spiralAll cx cy [] 0 bs"
  let ?placed = "take j ?L"
  let ?r = "bsize (bs ! j) / 2"
  obtain p where p: "spiralSteps cx cy (bs ! j) j ?placed 1 = Some p"
    using f by (auto simp: foundAt_spiral_def)
  have lenL: "length ?L = length bs" by (simp add: length_spiralAll)
  have Lj: "?L ! j = spiralOne cx cy ?placed j (bs ! j)"
    by (rule spiralAll_nth[OF j])
  have pos: "cxpos (?L ! j) = fst p" "cypos (?L ! j) = snd p" "bsize (?L ! j) = bsize (bs ! j)"
    using ij p by (simp_all add: Lj spiralOne_def Let_def)
  have "\<not> overlaps_spiral (fst p) (snd p) ?r ?placed" using spiralSteps_Some[OF p] .
  moreover have "?L ! i \<in> set ?placed"
  proof -
    have "?placed ! i = ?L ! i" using ij j by simp
    moreover have "i < length ?placed" using ij j by (simp add: lenL)
    ultimately show ?thesis by (metis nth_mem)
  qed
  ultimately have "\<not> (sqrt ((fst p - cxpos (?L ! i)) * (fst p - cxpos (?L ! i)) +
                          (snd p - cypos (?L ! i)) * (snd p - cypos (?L ! i)))
                      < ?r + bsize (?L ! i) / 2 + 4)"
    by (auto simp: overlaps_spiral_def list_ex_iff Let_def)
  then show ?thesis
    by (simp add: centreDist_def pos power2_eq_square power2_commute[of "cxpos (?L ! i)"] 
         power2_commute[of "cypos (?L ! i)"] algebra_simps)
qed

lemma sqrt_polar: "sqrt (cos t * \<rho> * (cos t * \<rho>) + sin t * \<rho> * (sin t * \<rho>)) = \<bar>\<rho>\<bar>"
proof -
  have "cos t * \<rho> * (cos t * \<rho>) + sin t * \<rho> * (sin t * \<rho>) = ((cos t)\<^sup>2 + (sin t)\<^sup>2) * (\<rho> * \<rho>)"
    by (simp only: power2_eq_square ring_distribs ac_simps)
  also have "\<dots> = \<rho> * \<rho>"
    by (simp only: sin_cos_squared_add2 mult_1_left)
  finally show ?thesis by simp
qed

lemma overlaps_centre:
  "overlaps (cx + cos t * \<rho>) (cy + sin t * \<rho>) r [\<lparr>dcx = cx, dcy = cy, dr = r0\<rparr>]
     \<longleftrightarrow> \<bar>\<rho>\<bar> < r + r0 + 6"
  by (simp add: overlaps_def Let_def sqrt_polar)

lemma overlaps_spiral_centre:
  "cxpos p = cx \<Longrightarrow> cypos p = cy \<Longrightarrow>
   overlaps_spiral (cx + cos t * \<rho>) (cy + sin t * \<rho>) r [p]
     \<longleftrightarrow> \<bar>\<rho>\<bar> < r + bsize p / 2 + 4"
  by (simp add: overlaps_spiral_def Let_def sqrt_polar)

lemma scanAngles_found:
  "a \<le> a' \<Longrightarrow> a' < n \<Longrightarrow>
   \<not> overlaps (cx + cos ((real a' / real n) * 2 * pi) * ring)
               (cy + sin ((real a' / real n) * 2 * pi) * ring) r placed \<Longrightarrow>
   scanAngles cx cy r placed ring n a \<noteq> None"
proof (induction cx cy r placed ring n a rule: scanAngles.induct)
  case (1 cx cy r placed ring n a)
  show ?case
  proof (cases "a = a'")
    case True
    then show ?thesis using 1(3,4) by (subst scanAngles.simps) (simp add: Let_def)
  next
    case False
    then have "a + 1 \<le> a'" using 1(2) by simp
    then show ?thesis using 1 by (subst scanAngles.simps) (simp add: Let_def)
  qed
qed

lemma scanRings_found:
  "ring + 2 * real k \<le> 800 \<Longrightarrow>
   scanAngles cx cy r placed (ring + 2 * real k) (angleStepsOf (ring + 2 * real k)) 0 \<noteq> None \<Longrightarrow>
   scanRings cx cy r placed ring \<noteq> None"
proof (induction k arbitrary: ring)
  case 0
  then show ?case by (subst scanRings.simps) (auto split: option.splits)
next
  case (Suc k)
  have "scanRings cx cy r placed (ring + 2) \<noteq> None"
    using Suc.IH[of "ring + 2"] Suc.prems by (simp add: algebra_simps)
  moreover have "ring \<le> 800" using Suc.prems(1) by simp
  ultimately show ?case by (subst scanRings.simps) (auto split: option.splits)
qed

lemma angleStepsOf_pos: "0 < angleStepsOf ring"
  by (simp add: angleStepsOf_def)

lemma spiralSteps_found:
  "step \<le> step' \<Longrightarrow> step' \<le> 300 \<Longrightarrow>
   \<not> overlaps_spiral
        (cx + cos (real i * GOLDEN_ANGLE + (real step' - 1) * 0.15)
                * (sqrt (real i) * bsize b * 0.62 + (real step' - 1) * 4))
        (cy + sin (real i * GOLDEN_ANGLE + (real step' - 1) * 0.15)
                * (sqrt (real i) * bsize b * 0.62 + (real step' - 1) * 4))
        (bsize b / 2) placed \<Longrightarrow>
   spiralSteps cx cy b i placed step \<noteq> None"
proof (induction cx cy b i placed step rule: spiralSteps.induct)
  case (1 cx cy b i placed step)
  show ?case
  proof (cases "step = step'")
    case True
    then show ?thesis using 1(3,4) by (subst spiralSteps.simps) (simp add: Let_def)
  next
    case False
    then have "step + 1 \<le> step'" using 1(2) by simp
    then show ?thesis using 1 by (subst spiralSteps.simps) (simp add: Let_def)
  qed
qed

lemma twoBubbles_ring_found: "foundAt 450 cy twoBubbles 1 \<noteq> None"
proof -
  have placed: "map discOf (take 1 (placeAll 450 cy [] twoBubbles)) = [\<lparr>dcx = 450, dcy = cy, dr = 50\<rparr>]"
    by (simp add: twoBubbles_def placeOne_def discOf_def Let_def split_beta)
  have "scanAngles 450 cy 50 [\<lparr>dcx = 450, dcy = cy, dr = 50\<rparr>] (56 + 2 * real 25)
          (angleStepsOf (56 + 2 * real 25)) 0 \<noteq> None"
    by (rule scanAngles_found[where a' = 0])
       (simp, simp add: angleStepsOf_pos, subst overlaps_centre, simp)
  then have "scanRings 450 cy 50 [\<lparr>dcx = 450, dcy = cy, dr = 50\<rparr>] 56 \<noteq> None"
    by (rule scanRings_found[rotated]) simp
  then show ?thesis
    unfolding foundAt_def placed by (simp add: twoBubbles_def)
qed

lemma twoBubbles_spiral_found: "foundAt_spiral 450 320 twoBubbles 1 \<noteq> None"
proof -
  let ?p = "\<lparr>bid = ''a'', ts = None, index = 0, bsize = 100, gradient = ''g'',
             xpos = 400, ypos = 270, cxpos = 450, cypos = 320\<rparr>"
  let ?b = "\<lparr>bid = ''b'', ts = None, index = 1, bsize = 100, gradient = ''g''\<rparr>"
  have placed: "take 1 (spiralAll 450 320 [] 0 twoBubbles) = [?p]"
  proof -
    have "take (length [?p]) (spiralAll 450 320 [?p] 1 [?b]) = [?p]"
      by (rule spiralAll_prefix)
    then show ?thesis by (simp add: twoBubbles_def spiralOne_def Let_def)
  qed
  have "spiralSteps 450 320 ?b 1 [?p] 1 \<noteq> None"
    by (rule spiralSteps_found[where step' = 12])
       (simp, simp, subst overlaps_spiral_centre, simp_all)
  then show ?thesis
    unfolding foundAt_spiral_def placed by (simp add: twoBubbles_def)
qed

lemma placeAll_truncate:
  "i < length bs \<Longrightarrow> bubble.truncate (placeAll cx cy placed bs ! i) = bs ! i"
  by (simp add: placeAll_nth placeOne_def Let_def bubble.truncate_def)

lemma spiralAll_truncate:
  "i < length bs \<Longrightarrow> bubble.truncate (spiralAll cx cy [] 0 bs ! i) = bs ! i"
  by (simp add: spiralAll_nth spiralOne_def Let_def bubble.truncate_def split: option.splits)

lemma bsize_truncate: "bsize (bubble.truncate p) = bsize p"
  by (simp add: bubble.truncate_def)

lemma placeAll_bsize:
  "i < length bs \<Longrightarrow> bsize (placeAll cx cy placed bs ! i) = bsize (bs ! i)"
  using placeAll_truncate[of i bs cx cy placed] bsize_truncate[of "placeAll cx cy placed bs ! i"]
  by simp

lemma spiralAll_bsize:
  "i < length bs \<Longrightarrow> bsize (spiralAll cx cy [] 0 bs ! i) = bsize (bs ! i)"
  using spiralAll_truncate[of i bs cx cy] bsize_truncate[of "spiralAll cx cy [] 0 bs ! i"]
  by simp


section \<open>The layout engine: clearance\<close>

text \<open>
  Claim C1. When every search ends with a position (the search budget suffices), any two
  different circles of the result keep the clearance: the distance of their centres is at
  least the sum of their radii plus the gap, 6 for the two ring-scan functions and 4 for
  the spiral.
\<close>

theorem no_overlap_invariant:
  assumes "i < length bs" and "j < length bs" and "i \<noteq> j"
  shows
  "(ringBudgetSuffices bs W H off \<longrightarrow>
      bsize (layoutBubbles bs W H off ! i) / 2 + bsize (layoutBubbles bs W H off ! j) / 2 + 6
        \<le> centreDist (layoutBubbles bs W H off ! i) (layoutBubbles bs W H off ! j))
   \<and> (ringBudgetSuffices bs W H (- 10) \<longrightarrow>
      bsize (layoutBubbles_fixed bs W H ! i) / 2 + bsize (layoutBubbles_fixed bs W H ! j) / 2 + 6
        \<le> centreDist (layoutBubbles_fixed bs W H ! i) (layoutBubbles_fixed bs W H ! j))
   \<and> (spiralBudgetSuffices bs W H \<longrightarrow>
      bsize (layoutBubbles_spiral bs W H ! i) / 2 + bsize (layoutBubbles_spiral bs W H ! j) / 2 + 4
        \<le> centreDist (layoutBubbles_spiral bs W H ! i) (layoutBubbles_spiral bs W H ! j))"
proof -
  have ring: "bsize (placeAll cx cy [] bs ! i) / 2 + bsize (placeAll cx cy [] bs ! j) / 2 + 6
                \<le> centreDist (placeAll cx cy [] bs ! i) (placeAll cx cy [] bs ! j)"
    if all: "\<forall>j\<in>{1..<length bs}. foundAt cx cy bs j \<noteq> None"
      and i: "i < length bs" and j: "j < length bs" and ne: "i \<noteq> j" for cx cy i j
  proof (cases "i < j")
    case True
    then have "foundAt cx cy bs j \<noteq> None" using all j by simp
    then show ?thesis using ring_clear[OF True j] by simp
  next
    case False
    then have ji: "j < i" using ne by simp
    then have "foundAt cx cy bs i \<noteq> None" using all i by simp
    then show ?thesis
      using ring_clear[OF ji i, of cx cy] by (simp add: centreDist_sym[of "placeAll cx cy [] bs ! i"])
  qed
  have spiral: "bsize (spiralAll cx cy [] 0 bs ! i) / 2 + bsize (spiralAll cx cy [] 0 bs ! j) / 2 + 4
                \<le> centreDist (spiralAll cx cy [] 0 bs ! i) (spiralAll cx cy [] 0 bs ! j)"
    if all: "\<forall>j\<in>{1..<length bs}. foundAt_spiral cx cy bs j \<noteq> None"
      and i: "i < length bs" and j: "j < length bs" and ne: "i \<noteq> j" for cx cy i j
  proof (cases "i < j")
    case True
    then have "foundAt_spiral cx cy bs j \<noteq> None" using all j by simp
    then show ?thesis using spiral_clear[OF True j] by simp
  next
    case False
    then have ji: "j < i" using ne by simp
    then have "foundAt_spiral cx cy bs i \<noteq> None" using all i by simp
    then show ?thesis
      using spiral_clear[OF ji i, of cx cy] by (simp add: centreDist_sym[of "spiralAll cx cy [] 0 bs ! i"])
  qed
  have c1: "ringBudgetSuffices bs W H off' \<longrightarrow>
         bsize (layoutBubbles bs W H off' ! i) / 2 + bsize (layoutBubbles bs W H off' ! j) / 2 + 6
           \<le> centreDist (layoutBubbles bs W H off' ! i) (layoutBubbles bs W H off' ! j)" for off'
    using ring[of "W / 2" "H / 2 + off'" i j] assms
    by (auto simp: ringBudgetSuffices_def layoutBubbles_def list_all_iff Let_def)
  have fixed: "layoutBubbles_fixed bs W H = layoutBubbles bs W H (- 10)"
    by (simp add: layoutBubbles_fixed_def layoutBubbles_def)
  have c3: "spiralBudgetSuffices bs W H \<longrightarrow>
         bsize (layoutBubbles_spiral bs W H ! i) / 2 + bsize (layoutBubbles_spiral bs W H ! j) / 2 + 4
           \<le> centreDist (layoutBubbles_spiral bs W H ! i) (layoutBubbles_spiral bs W H ! j)"
    using spiral[of "W / 2" "H / 2 - 20" i j] assms
    by (auto simp: spiralBudgetSuffices_def layoutBubbles_spiral_def list_all_iff Let_def)
  show ?thesis using c1[of off] c1[of "- 10"] c3 by (simp only: fixed)
qed

theorem no_overlap_invariant_witness:
  "ringBudgetSuffices twoBubbles 900 680 0 \<and> ringBudgetSuffices twoBubbles 900 680 (- 10)
   \<and> spiralBudgetSuffices twoBubbles 900 680
   \<and> (0::nat) < length twoBubbles \<and> (1::nat) < length twoBubbles \<and> (0::nat) \<noteq> 1
   \<and> 106 \<le> centreDist (layoutBubbles twoBubbles 900 680 0 ! 0) (layoutBubbles twoBubbles 900 680 0 ! 1)
   \<and> 106 \<le> centreDist (layoutBubbles_fixed twoBubbles 900 680 ! 0) (layoutBubbles_fixed twoBubbles 900 680 ! 1)
   \<and> 104 \<le> centreDist (layoutBubbles_spiral twoBubbles 900 680 ! 0) (layoutBubbles_spiral twoBubbles 900 680 ! 1)"
proof -
  have len: "length twoBubbles = 2" by (simp add: twoBubbles_def)
  have upt: "[1..<2] = [1::nat]" by (simp add: upt_conv_Cons)
  have h1: "ringBudgetSuffices twoBubbles 900 680 0"
    unfolding ringBudgetSuffices_def len upt
    using twoBubbles_ring_found[of 340] by simp
  have h2: "ringBudgetSuffices twoBubbles 900 680 (- 10)"
    unfolding ringBudgetSuffices_def len upt
    using twoBubbles_ring_found[of 330] by simp
  have h3: "spiralBudgetSuffices twoBubbles 900 680"
    unfolding spiralBudgetSuffices_def len upt
    using twoBubbles_spiral_found by simp
  have sz: "bsize (layoutBubbles twoBubbles 900 680 0 ! 0) = 100"
     "bsize (layoutBubbles twoBubbles 900 680 0 ! 1) = 100"
     "bsize (layoutBubbles_fixed twoBubbles 900 680 ! 0) = 100"
     "bsize (layoutBubbles_fixed twoBubbles 900 680 ! 1) = 100"
     "bsize (layoutBubbles_spiral twoBubbles 900 680 ! 0) = 100"
     "bsize (layoutBubbles_spiral twoBubbles 900 680 ! 1) = 100"
    by (simp_all add: layoutBubbles_def layoutBubbles_fixed_def layoutBubbles_spiral_def len
          placeAll_bsize spiralAll_bsize)
       (simp_all add: twoBubbles_def)
  show ?thesis
    using no_overlap_invariant[of 0 twoBubbles 1 900 680 0] h1 h2 h3 len sz
    by simp
qed

section \<open>The layout engine: totality, order, determinism, stability\<close>

lemma scanAngles_None:
  "(\<And>a'. a \<le> a' \<Longrightarrow> a' < n \<Longrightarrow>
      overlaps (cx + cos ((real a' / real n) * 2 * pi) * ring)
               (cy + sin ((real a' / real n) * 2 * pi) * ring) r placed) \<Longrightarrow>
   scanAngles cx cy r placed ring n a = None"
proof (induction cx cy r placed ring n a rule: scanAngles.induct)
  case (1 cx cy r placed ring n a)
  show ?case
  proof (cases "a < n")
    case True
    have ov: "overlaps (cx + cos ((real a / real n) * 2 * pi) * ring)
               (cy + sin ((real a / real n) * 2 * pi) * ring) r placed"
      using 1(2)[of a] True by simp
    have "scanAngles cx cy r placed ring n (a + 1) = None"
      using 1(1)[OF True refl refl refl] ov 1(2) by simp
    then show ?thesis using True ov by (subst scanAngles.simps) (simp add: Let_def)
  next
    case False
    then show ?thesis by (subst scanAngles.simps) simp
  qed
qed

lemma scanRings_None:
  "(\<And>ring'. ring \<le> ring' \<Longrightarrow> ring' \<le> 800 \<Longrightarrow>
      scanAngles cx cy r placed ring' (angleStepsOf ring') 0 = None) \<Longrightarrow>
   scanRings cx cy r placed ring = None"
proof (induction cx cy r placed ring rule: scanRings.induct)
  case (1 cx cy r placed ring)
  show ?case
  proof (cases "ring \<le> 800")
    case True
    have a: "scanAngles cx cy r placed ring (angleStepsOf ring) 0 = None"
      using 1(2)[of ring] True by simp
    have "scanRings cx cy r placed (ring + 2) = None"
      using 1(1)[OF True a] 1(2) by simp
    then show ?thesis using True a by (subst scanRings.simps) simp
  next
    case False
    then show ?thesis by (subst scanRings.simps) simp
  qed
qed

lemma spiralSteps_None:
  "(\<And>step'. step \<le> step' \<Longrightarrow> step' \<le> 300 \<Longrightarrow>
     overlaps_spiral
        (cx + cos (real i * GOLDEN_ANGLE + (real step' - 1) * 0.15)
                * (sqrt (real i) * bsize b * 0.62 + (real step' - 1) * 4))
        (cy + sin (real i * GOLDEN_ANGLE + (real step' - 1) * 0.15)
                * (sqrt (real i) * bsize b * 0.62 + (real step' - 1) * 4))
        (bsize b / 2) placed) \<Longrightarrow>
   spiralSteps cx cy b i placed step = None"
proof (induction cx cy b i placed step rule: spiralSteps.induct)
  case (1 cx cy b i placed step)
  show ?case
  proof (cases "step \<le> 300")
    case True
    have ov: "overlaps_spiral
        (cx + cos (real i * GOLDEN_ANGLE + (real step - 1) * 0.15)
                * (sqrt (real i) * bsize b * 0.62 + (real step - 1) * 4))
        (cy + sin (real i * GOLDEN_ANGLE + (real step - 1) * 0.15)
                * (sqrt (real i) * bsize b * 0.62 + (real step - 1) * 4))
        (bsize b / 2) placed"
      using 1(2)[of step] True by simp
    have "spiralSteps cx cy b i placed (step + 1) = None"
      using 1(1)[OF True refl refl refl refl] ov 1(2) by simp
    then show ?thesis using True ov by (subst spiralSteps.simps) (simp add: Let_def)
  next
    case False
    then show ?thesis by (subst spiralSteps.simps) simp
  qed
qed

lemma bigBubbles_ring_exhausted: "foundAt 450 cy bigBubbles 1 = None"
proof -
  have placed: "map discOf (take 1 (placeAll 450 cy [] bigBubbles)) = [\<lparr>dcx = 450, dcy = cy, dr = 5000\<rparr>]"
    by (simp add: bigBubbles_def placeOne_def discOf_def Let_def split_beta)
  have "scanRings 450 cy 50 [\<lparr>dcx = 450, dcy = cy, dr = 5000\<rparr>] 56 = None"
  proof (rule scanRings_None)
    fix ring' :: real
    assume r: "56 \<le> ring'" "ring' \<le> 800"
    show "scanAngles 450 cy 50 [\<lparr>dcx = 450, dcy = cy, dr = 5000\<rparr>] ring' (angleStepsOf ring') 0 = None"
      by (rule scanAngles_None) (use r in \<open>simp add: overlaps_centre\<close>)
  qed
  then show ?thesis
    unfolding foundAt_def placed by (simp add: bigBubbles_def)
qed

lemma bigBubbles_spiral_exhausted: "foundAt_spiral 450 320 bigBubbles 1 = None"
proof -
  let ?p = "\<lparr>bid = ''a'', ts = None, index = 0, bsize = 10000, gradient = ''g'',
             xpos = - 4550, ypos = - 4680, cxpos = 450, cypos = 320\<rparr>"
  let ?b = "\<lparr>bid = ''b'', ts = None, index = 1, bsize = 100, gradient = ''g''\<rparr>"
  have placed: "take 1 (spiralAll 450 320 [] 0 bigBubbles) = [?p]"
  proof -
    have "take (length [?p]) (spiralAll 450 320 [?p] 1 [?b]) = [?p]"
      by (rule spiralAll_prefix)
    then show ?thesis by (simp add: bigBubbles_def spiralOne_def Let_def)
  qed
  have "spiralSteps 450 320 ?b 1 [?p] 1 = None"
  proof (rule spiralSteps_None)
    fix step' :: nat
    assume s: "1 \<le> step'" "step' \<le> 300"
    then have "real step' \<le> 300" "1 \<le> real step'" by simp_all
    then show "overlaps_spiral
        (450 + cos (real 1 * GOLDEN_ANGLE + (real step' - 1) * 0.15)
                * (sqrt (real 1) * bsize ?b * 0.62 + (real step' - 1) * 4))
        (320 + sin (real 1 * GOLDEN_ANGLE + (real step' - 1) * 0.15)
                * (sqrt (real 1) * bsize ?b * 0.62 + (real step' - 1) * 4))
        (bsize ?b / 2) [?p]"
      by (subst overlaps_spiral_centre) simp_all
  qed
  then show ?thesis
    unfolding foundAt_spiral_def placed by (simp add: bigBubbles_def)
qed

lemma placeAll_fallback:
  assumes j: "j < length bs" and j0: "0 < j" and f: "foundAt cx cy bs j = None"
  shows "cxpos (placeAll cx cy [] bs ! j) = cx + real j * 10
       \<and> cypos (placeAll cx cy [] bs ! j) = cy + real j * 10
       \<and> xpos (placeAll cx cy [] bs ! j) = cx + real j * 10 - bsize (bs ! j) / 2
       \<and> ypos (placeAll cx cy [] bs ! j) = cy + real j * 10 - bsize (bs ! j) / 2"
proof -
  let ?L = "placeAll cx cy [] bs"
  let ?placed = "map discOf (take j ?L)"
  have lenp: "length ?placed = j" using j by (simp add: length_placeAll)
  have Lj: "?L ! j = fst (placeOne cx cy ?placed (bs ! j))"
    using placeAll_nth[OF j, of cx cy "[]"] by simp
  have s: "scanRings cx cy (bsize (bs ! j) / 2) ?placed (bsize (bs ! j) / 2 + 6) = None"
    using f by (simp add: foundAt_def)
  show ?thesis using j0 lenp s by (simp add: Lj placeOne_def Let_def)
qed

lemma spiralAll_fallback:
  assumes j: "j < length bs" and j0: "0 < j" and f: "foundAt_spiral cx cy bs j = None"
  shows "cxpos (spiralAll cx cy [] 0 bs ! j)
           = cx + cos (real j * GOLDEN_ANGLE) * (sqrt (real j) * bsize (bs ! j) * 0.8)
       \<and> cypos (spiralAll cx cy [] 0 bs ! j)
           = cy + sin (real j * GOLDEN_ANGLE) * (sqrt (real j) * bsize (bs ! j) * 0.8)
       \<and> xpos (spiralAll cx cy [] 0 bs ! j)
           = cx + cos (real j * GOLDEN_ANGLE) * (sqrt (real j) * bsize (bs ! j) * 0.8)
               - bsize (bs ! j) / 2
       \<and> ypos (spiralAll cx cy [] 0 bs ! j)
           = cy + sin (real j * GOLDEN_ANGLE) * (sqrt (real j) * bsize (bs ! j) * 0.8)
               - bsize (bs ! j) / 2"
proof -
  have s: "spiralSteps cx cy (bs ! j) j (take j (spiralAll cx cy [] 0 bs)) 1 = None"
    using f by (simp add: foundAt_spiral_def)
  show ?thesis using j0 s by (simp add: spiralAll_nth[OF j] spiralOne_def Let_def)
qed

text \<open>
  Claim C2. The layout functions are total: they return one placement for each input
  circle, whatever the canvas. When the search of the ring scan ends without a position,
  the circle is placed at the fallback position, \<open>10 * j\<close> right of and below the cluster
  centre for the circle at index \<open>j\<close>; when the 300 steps of the spiral end without a
  position, at radius \<open>sqrt j * size * 0.8\<close> on the golden-angle ray.
\<close>

theorem layout_never_fails:
  "length (layoutBubbles bs W H off) = length bs
   \<and> length (layoutBubbles_fixed bs W H) = length bs
   \<and> length (layoutBubbles_spiral bs W H) = length bs
   \<and> (\<forall>j. 0 < j \<and> j < length bs \<and> foundAt (W / 2) (H / 2 + off) bs j = None \<longrightarrow>
         cxpos (layoutBubbles bs W H off ! j) = W / 2 + real j * 10
       \<and> cypos (layoutBubbles bs W H off ! j) = H / 2 + off + real j * 10
       \<and> xpos (layoutBubbles bs W H off ! j) = W / 2 + real j * 10 - bsize (bs ! j) / 2
       \<and> ypos (layoutBubbles bs W H off ! j) = H / 2 + off + real j * 10 - bsize (bs ! j) / 2)
   \<and> (\<forall>j. 0 < j \<and> j < length bs \<and> foundAt_spiral (W / 2) (H / 2 - 20) bs j = None \<longrightarrow>
         cxpos (layoutBubbles_spiral bs W H ! j)
           = W / 2 + cos (real j * GOLDEN_ANGLE) * (sqrt (real j) * bsize (bs ! j) * 0.8)
       \<and> cypos (layoutBubbles_spiral bs W H ! j)
           = H / 2 - 20 + sin (real j * GOLDEN_ANGLE) * (sqrt (real j) * bsize (bs ! j) * 0.8)
       \<and> xpos (layoutBubbles_spiral bs W H ! j)
           = W / 2 + cos (real j * GOLDEN_ANGLE) * (sqrt (real j) * bsize (bs ! j) * 0.8)
               - bsize (bs ! j) / 2
       \<and> ypos (layoutBubbles_spiral bs W H ! j)
           = H / 2 - 20 + sin (real j * GOLDEN_ANGLE) * (sqrt (real j) * bsize (bs ! j) * 0.8)
               - bsize (bs ! j) / 2)"
proof -
  have l1: "length (layoutBubbles bs W H off) = length bs"
    by (simp add: layoutBubbles_def length_placeAll)
  have l2: "length (layoutBubbles_fixed bs W H) = length bs"
    by (simp add: layoutBubbles_fixed_def length_placeAll)
  have l3: "length (layoutBubbles_spiral bs W H) = length bs"
    by (simp add: layoutBubbles_spiral_def length_spiralAll)
  have r: "\<forall>j. 0 < j \<and> j < length bs \<and> foundAt (W / 2) (H / 2 + off) bs j = None \<longrightarrow>
         cxpos (layoutBubbles bs W H off ! j) = W / 2 + real j * 10
       \<and> cypos (layoutBubbles bs W H off ! j) = H / 2 + off + real j * 10
       \<and> xpos (layoutBubbles bs W H off ! j) = W / 2 + real j * 10 - bsize (bs ! j) / 2
       \<and> ypos (layoutBubbles bs W H off ! j) = H / 2 + off + real j * 10 - bsize (bs ! j) / 2"
  proof (intro allI impI)
    fix j assume a: "0 < j \<and> j < length bs \<and> foundAt (W / 2) (H / 2 + off) bs j = None"
    then have ne: "length bs \<noteq> 0" by auto
    show "cxpos (layoutBubbles bs W H off ! j) = W / 2 + real j * 10
       \<and> cypos (layoutBubbles bs W H off ! j) = H / 2 + off + real j * 10
       \<and> xpos (layoutBubbles bs W H off ! j) = W / 2 + real j * 10 - bsize (bs ! j) / 2
       \<and> ypos (layoutBubbles bs W H off ! j) = H / 2 + off + real j * 10 - bsize (bs ! j) / 2"
      using placeAll_fallback[of j bs "W / 2" "H / 2 + off"] a ne
      by (simp add: layoutBubbles_def Let_def)
  qed
  have s: "\<forall>j. 0 < j \<and> j < length bs \<and> foundAt_spiral (W / 2) (H / 2 - 20) bs j = None \<longrightarrow>
         cxpos (layoutBubbles_spiral bs W H ! j)
           = W / 2 + cos (real j * GOLDEN_ANGLE) * (sqrt (real j) * bsize (bs ! j) * 0.8)
       \<and> cypos (layoutBubbles_spiral bs W H ! j)
           = H / 2 - 20 + sin (real j * GOLDEN_ANGLE) * (sqrt (real j) * bsize (bs ! j) * 0.8)
       \<and> xpos (layoutBubbles_spiral bs W H ! j)
           = W / 2 + cos (real j * GOLDEN_ANGLE) * (sqrt (real j) * bsize (bs ! j) * 0.8)
               - bsize (bs ! j) / 2
       \<and> ypos (layoutBubbles_spiral bs W H ! j)
           = H / 2 - 20 + sin (real j * GOLDEN_ANGLE) * (sqrt (real j) * bsize (bs ! j) * 0.8)
               - bsize (bs ! j) / 2"
  proof (intro allI impI)
    fix j assume a: "0 < j \<and> j < length bs \<and> foundAt_spiral (W / 2) (H / 2 - 20) bs j = None"
    then have ne: "length bs \<noteq> 0" by auto
    show "cxpos (layoutBubbles_spiral bs W H ! j)
           = W / 2 + cos (real j * GOLDEN_ANGLE) * (sqrt (real j) * bsize (bs ! j) * 0.8)
       \<and> cypos (layoutBubbles_spiral bs W H ! j)
           = H / 2 - 20 + sin (real j * GOLDEN_ANGLE) * (sqrt (real j) * bsize (bs ! j) * 0.8)
       \<and> xpos (layoutBubbles_spiral bs W H ! j)
           = W / 2 + cos (real j * GOLDEN_ANGLE) * (sqrt (real j) * bsize (bs ! j) * 0.8)
               - bsize (bs ! j) / 2
       \<and> ypos (layoutBubbles_spiral bs W H ! j)
           = H / 2 - 20 + sin (real j * GOLDEN_ANGLE) * (sqrt (real j) * bsize (bs ! j) * 0.8)
               - bsize (bs ! j) / 2"
      using spiralAll_fallback[of j bs "W / 2" "H / 2 - 20"] a ne
      by (simp add: layoutBubbles_spiral_def Let_def)
  qed
  from l1 l2 l3 r s show ?thesis by (intro conjI)
qed

lemma placeAll_first:
  "bs \<noteq> [] \<Longrightarrow>
   placeAll cx cy [] bs ! 0 =
     \<lparr>bid = bid (bs ! 0), ts = ts (bs ! 0), index = index (bs ! 0), bsize = bsize (bs ! 0),
      gradient = gradient (bs ! 0),
      xpos = cx - bsize (bs ! 0) / 2, ypos = cy - bsize (bs ! 0) / 2, cxpos = cx, cypos = cy\<rparr>"
  by (cases bs) (simp_all add: placeOne_def Let_def split_beta)

lemma spiralAll_first:
  "bs \<noteq> [] \<Longrightarrow>
   spiralAll cx cy [] 0 bs ! 0 =
     \<lparr>bid = bid (bs ! 0), ts = ts (bs ! 0), index = index (bs ! 0), bsize = bsize (bs ! 0),
      gradient = gradient (bs ! 0),
      xpos = cx - bsize (bs ! 0) / 2, ypos = cy - bsize (bs ! 0) / 2, cxpos = cx, cypos = cy\<rparr>"
proof -
  assume "bs \<noteq> []"
  then have "0 < length bs" by simp
  from spiralAll_nth[OF this, of cx cy] show ?thesis by (simp add: spiralOne_def Let_def)
qed

lemma bigBubbles_fallback_overlaps:
  "cxpos (layoutBubbles bigBubbles 900 680 0 ! 1) = 460 \<Longrightarrow>
   cypos (layoutBubbles bigBubbles 900 680 0 ! 1) = 350 \<Longrightarrow>
   centreDist (layoutBubbles bigBubbles 900 680 0 ! 0) (layoutBubbles bigBubbles 900 680 0 ! 1)
     < bsize (bigBubbles ! 0) / 2 + bsize (bigBubbles ! 1) / 2 + 6"
proof -
  assume a: "cxpos (layoutBubbles bigBubbles 900 680 0 ! 1) = 460"
    "cypos (layoutBubbles bigBubbles 900 680 0 ! 1) = 350"
  have ne: "bigBubbles \<noteq> []" by (simp add: bigBubbles_def)
  have z: "cxpos (layoutBubbles bigBubbles 900 680 0 ! 0) = 450"
    "cypos (layoutBubbles bigBubbles 900 680 0 ! 0) = 340"
    using ne by (simp_all add: layoutBubbles_def placeAll_first Let_def)
  have sz: "bsize (bigBubbles ! 0) / 2 + bsize (bigBubbles ! 1) / 2 + 6 = 5056"
    by (simp add: bigBubbles_def)
  have cd: "centreDist (layoutBubbles bigBubbles 900 680 0 ! 0)
              (layoutBubbles bigBubbles 900 680 0 ! 1) = sqrt 200"
    unfolding centreDist_def z a by simp
  have "sqrt 200 < 5056" by (rule real_less_lsqrt) simp_all
  then show ?thesis unfolding sz cd .
qed

theorem layout_never_fails_witness:
  "(0::nat) < 1 \<and> 1 < length bigBubbles
   \<and> foundAt (900 / 2) (680 / 2 + 0) bigBubbles 1 = None
   \<and> foundAt_spiral (900 / 2) (680 / 2 - 20) bigBubbles 1 = None
   \<and> length (layoutBubbles bigBubbles 900 680 0) = 2
   \<and> length (layoutBubbles_spiral bigBubbles 900 680) = 2
   \<and> cxpos (layoutBubbles bigBubbles 900 680 0 ! 1) = 460
   \<and> cypos (layoutBubbles bigBubbles 900 680 0 ! 1) = 350
   \<and> cxpos (layoutBubbles_spiral bigBubbles 900 680 ! 1) = 450 + cos GOLDEN_ANGLE * 80
   \<and> cypos (layoutBubbles_spiral bigBubbles 900 680 ! 1) = 320 + sin GOLDEN_ANGLE * 80
   \<and> centreDist (layoutBubbles bigBubbles 900 680 0 ! 0) (layoutBubbles bigBubbles 900 680 0 ! 1)
       < bsize (bigBubbles ! 0) / 2 + bsize (bigBubbles ! 1) / 2 + 6"
proof -
  note T = layout_never_fails[of bigBubbles 900 680 0]
  have len: "length bigBubbles = 2" by (simp add: bigBubbles_def)
  have b1: "bsize (bigBubbles ! 1) = 100" by (simp add: bigBubbles_def)
  have f1: "foundAt (900 / 2) (680 / 2 + 0) bigBubbles 1 = None"
    using bigBubbles_ring_exhausted[of 340] by simp
  have f2: "foundAt_spiral (900 / 2) (680 / 2 - 20) bigBubbles 1 = None"
    using bigBubbles_spiral_exhausted by simp
  from T have r: "0 < (1::nat) \<and> 1 < length bigBubbles \<and> foundAt (900 / 2) (680 / 2 + 0) bigBubbles 1 = None \<longrightarrow>
         cxpos (layoutBubbles bigBubbles 900 680 0 ! 1) = 900 / 2 + real 1 * 10
       \<and> cypos (layoutBubbles bigBubbles 900 680 0 ! 1) = 680 / 2 + 0 + real 1 * 10
       \<and> xpos (layoutBubbles bigBubbles 900 680 0 ! 1) = 900 / 2 + real 1 * 10 - bsize (bigBubbles ! 1) / 2
       \<and> ypos (layoutBubbles bigBubbles 900 680 0 ! 1) = 680 / 2 + 0 + real 1 * 10 - bsize (bigBubbles ! 1) / 2"
    by blast
  from T have s: "0 < (1::nat) \<and> 1 < length bigBubbles \<and> foundAt_spiral (900 / 2) (680 / 2 - 20) bigBubbles 1 = None \<longrightarrow>
         cxpos (layoutBubbles_spiral bigBubbles 900 680 ! 1)
           = 900 / 2 + cos (real 1 * GOLDEN_ANGLE) * (sqrt (real 1) * bsize (bigBubbles ! 1) * 0.8)
       \<and> cypos (layoutBubbles_spiral bigBubbles 900 680 ! 1)
           = 680 / 2 - 20 + sin (real 1 * GOLDEN_ANGLE) * (sqrt (real 1) * bsize (bigBubbles ! 1) * 0.8)
       \<and> xpos (layoutBubbles_spiral bigBubbles 900 680 ! 1)
           = 900 / 2 + cos (real 1 * GOLDEN_ANGLE) * (sqrt (real 1) * bsize (bigBubbles ! 1) * 0.8)
               - bsize (bigBubbles ! 1) / 2
       \<and> ypos (layoutBubbles_spiral bigBubbles 900 680 ! 1)
           = 680 / 2 - 20 + sin (real 1 * GOLDEN_ANGLE) * (sqrt (real 1) * bsize (bigBubbles ! 1) * 0.8)
               - bsize (bigBubbles ! 1) / 2"
    by blast
  have ls: "length (layoutBubbles bigBubbles 900 680 0) = 2" "length (layoutBubbles_spiral bigBubbles 900 680) = 2"
    using T len by simp_all
  from r f1 len have r': "cxpos (layoutBubbles bigBubbles 900 680 0 ! 1) = 460"
    "cypos (layoutBubbles bigBubbles 900 680 0 ! 1) = 350" by simp_all
  from s f2 len b1 have s': "cxpos (layoutBubbles_spiral bigBubbles 900 680 ! 1) = 450 + cos GOLDEN_ANGLE * 80"
    "cypos (layoutBubbles_spiral bigBubbles 900 680 ! 1) = 320 + sin GOLDEN_ANGLE * 80" by simp_all
  note ov = bigBubbles_fallback_overlaps[OF r']
  show ?thesis using f1 f2 len ls r' s' ov by simp
qed

text \<open>
  Claim C3. The result has the length of the input, and the element at each index has the
  id and all the other fields of the input element at that index.
\<close>

theorem order_preservation:
  "length (layoutBubbles bs W H off) = length bs
   \<and> (\<forall>i<length bs. bid (layoutBubbles bs W H off ! i) = bid (bs ! i)
                   \<and> bubble.truncate (layoutBubbles bs W H off ! i) = bs ! i)"
proof -
  have "bid (placeAll cx cy [] bs ! i) = bid (bs ! i)" if "i < length bs" for cx cy i
    using placeAll_truncate[OF that, of cx cy "[]"]
    by (metis bubble.select_convs(1) bubble.truncate_def)
  then show ?thesis
    by (auto simp: layoutBubbles_def length_placeAll placeAll_truncate Let_def)
qed

theorem order_preservation_witness:
  "(1::nat) < length twoBubbles
   \<and> length (layoutBubbles twoBubbles 900 680 0) = 2
   \<and> bid (layoutBubbles twoBubbles 900 680 0 ! 1) = ''b''
   \<and> bubble.truncate (layoutBubbles twoBubbles 900 680 0 ! 1)
       = \<lparr>bid = ''b'', ts = None, index = 1, bsize = 100, gradient = ''g''\<rparr>"
proof -
  have len: "length twoBubbles = 2" by (simp add: twoBubbles_def)
  have n1: "twoBubbles ! 1 = \<lparr>bid = ''b'', ts = None, index = 1, bsize = 100, gradient = ''g''\<rparr>"
    by (simp add: twoBubbles_def)
  from order_preservation[of twoBubbles 900 680 0] len
  have "length (layoutBubbles twoBubbles 900 680 0) = 2"
    "bid (layoutBubbles twoBubbles 900 680 0 ! 1) = bid (twoBubbles ! 1)"
    "bubble.truncate (layoutBubbles twoBubbles 900 680 0 ! 1) = twoBubbles ! 1"
    by simp_all
  then show ?thesis using len n1 by simp
qed

lemma scanAngles_first:
  "0 < n \<Longrightarrow> \<not> overlaps (cx + ring) cy r placed \<Longrightarrow>
   scanAngles cx cy r placed ring n 0 = Some (cx + ring, cy)"
  by (subst scanAngles.simps) (simp add: Let_def)

lemma scanRings_first:
  "(\<And>k'. k' < k \<Longrightarrow>
      scanAngles cx cy r placed (ring + 2 * real k') (angleStepsOf (ring + 2 * real k')) 0 = None) \<Longrightarrow>
   ring + 2 * real k \<le> 800 \<Longrightarrow>
   scanAngles cx cy r placed (ring + 2 * real k) (angleStepsOf (ring + 2 * real k)) 0 = Some p \<Longrightarrow>
   scanRings cx cy r placed ring = Some p"
proof (induction k arbitrary: ring)
  case 0
  then show ?case by (subst scanRings.simps) simp
next
  case (Suc k)
  have le: "ring \<le> 800" using Suc.prems(2) by simp
  have none: "scanAngles cx cy r placed ring (angleStepsOf ring) 0 = None"
    using Suc.prems(1)[of 0] by simp
  have "scanRings cx cy r placed (ring + 2) = Some p"
  proof (rule Suc.IH)
    fix k' assume "k' < k"
    then show "scanAngles cx cy r placed (ring + 2 + 2 * real k')
                 (angleStepsOf (ring + 2 + 2 * real k')) 0 = None"
      using Suc.prems(1)[of "Suc k'"] by (simp add: algebra_simps)
  next
    show "ring + 2 + 2 * real k \<le> 800" using Suc.prems(2) by (simp add: algebra_simps)
  next
    show "scanAngles cx cy r placed (ring + 2 + 2 * real k)
            (angleStepsOf (ring + 2 + 2 * real k)) 0 = Some p"
      using Suc.prems(3) by (simp add: algebra_simps)
  qed
  then show ?case using le none by (subst scanRings.simps) simp
qed

lemma twoBubbles_second: 
  "cxpos (placeAll 450 cy [] twoBubbles ! 1) = 556 \<and> cypos (placeAll 450 cy [] twoBubbles ! 1) = cy"
proof -
  let ?d = "\<lparr>dcx = 450, dcy = cy, dr = 50\<rparr>"
  have placed: "map discOf (take 1 (placeAll 450 cy [] twoBubbles)) = [?d]"
    by (simp add: twoBubbles_def placeOne_def discOf_def Let_def split_beta)
  have s: "scanRings 450 cy 50 [?d] 56 = Some (556, cy)"
  proof (rule scanRings_first[where k = 25])
    fix k' :: nat assume k: "k' < 25"
    then have "real k' < 25" by simp
    then have b: "\<bar>56 + 2 * real k'\<bar> < 106" by simp
    show "scanAngles 450 cy 50 [?d] (56 + 2 * real k') (angleStepsOf (56 + 2 * real k')) 0 = None"
      by (rule scanAngles_None) (use b in \<open>simp add: overlaps_centre\<close>)
  next
    show "56 + 2 * real 25 \<le> (800::real)" by simp
  next
    have "\<not> overlaps (450 + (56 + 2 * real 25)) cy 50 [?d]"
      using overlaps_centre[of 450 0 "56 + 2 * real 25" cy 50 50] by simp
    from scanAngles_first[OF angleStepsOf_pos this]
    show "scanAngles 450 cy 50 [?d] (56 + 2 * real 25) (angleStepsOf (56 + 2 * real 25)) 0
            = Some (556, cy)" by simp
  qed
  have len: "1 < length twoBubbles" by (simp add: twoBubbles_def)
  have b1: "bsize (twoBubbles ! 1) = 100" by (simp add: twoBubbles_def)
  have "placeAll 450 cy [] twoBubbles ! 1 =
          fst (placeOne 450 cy (map discOf (take 1 (placeAll 450 cy [] twoBubbles))) (twoBubbles ! 1))"
    using placeAll_nth[OF len, of 450 cy "[]"] by simp
  then show ?thesis
    unfolding placed using b1 s by (simp add: placeOne_def Let_def)
qed

text \<open>
  Claim C5. The layout of a sequence extended by one circle has one placement more, and
  its first placements are the layout of the sequence itself, index by index: a placement
  depends only on the circles before it. The witness is the second of two circles, a
  placement found by the ring scan, at ring 106.
\<close>

theorem append_stability:
  "length (layoutBubbles bs W H off) = length bs
   \<and> length (layoutBubbles (bs @ [b]) W H off) = length bs + 1
   \<and> take (length bs) (layoutBubbles (bs @ [b]) W H off) = layoutBubbles bs W H off
   \<and> (\<forall>i<length bs. layoutBubbles (bs @ [b]) W H off ! i = layoutBubbles bs W H off ! i)"
proof -
  have l1: "length (layoutBubbles bs W H off) = length bs"
    by (simp add: layoutBubbles_def length_placeAll)
  have l2: "length (layoutBubbles (bs @ [b]) W H off) = length bs + 1"
    by (simp add: layoutBubbles_def length_placeAll)
  have ap: "layoutBubbles (bs @ [b]) W H off =
          layoutBubbles bs W H off @
          placeAll (W / 2) (H / 2 + off) (map discOf (layoutBubbles bs W H off)) [b]"
    by (cases "bs = []") (simp_all add: layoutBubbles_def Let_def placeAll_append)
  have tk: "take (length bs) (layoutBubbles (bs @ [b]) W H off) = layoutBubbles bs W H off"
    unfolding ap using l1 by simp
  have nth: "\<forall>i<length bs. layoutBubbles (bs @ [b]) W H off ! i = layoutBubbles bs W H off ! i"
    unfolding ap using l1 by (simp add: nth_append)
  from l1 l2 tk nth show ?thesis by (intro conjI)
qed

theorem append_stability_witness:
  "(1::nat) < length twoBubbles
   \<and> length (layoutBubbles twoBubbles 900 680 0) = 2
   \<and> length (layoutBubbles (twoBubbles @ [circle100\<lparr>bid := ''c''\<rparr>]) 900 680 0) = 3
   \<and> layoutBubbles (twoBubbles @ [circle100\<lparr>bid := ''c''\<rparr>]) 900 680 0 ! 1
       = layoutBubbles twoBubbles 900 680 0 ! 1
   \<and> cxpos (layoutBubbles (twoBubbles @ [circle100\<lparr>bid := ''c''\<rparr>]) 900 680 0 ! 1) = 556
   \<and> cypos (layoutBubbles (twoBubbles @ [circle100\<lparr>bid := ''c''\<rparr>]) 900 680 0 ! 1) = 340"
proof -
  have len: "length twoBubbles = 2" by (simp add: twoBubbles_def)
  note T = append_stability[of twoBubbles 900 680 0 "circle100\<lparr>bid := ''c''\<rparr>"]
  note l1 = T[THEN conjunct1]
  note l2 = T[THEN conjunct2, THEN conjunct1]
  have one: "(1::nat) < length twoBubbles" by (simp add: len)
  note eq = T[THEN conjunct2, THEN conjunct2, THEN conjunct2, rule_format, OF one]
  have pos: "cxpos (layoutBubbles twoBubbles 900 680 0 ! 1) = 556"
    "cypos (layoutBubbles twoBubbles 900 680 0 ! 1) = 340"
    using twoBubbles_second[of 340] len by (simp_all add: layoutBubbles_def)
  show ?thesis using one l1 l2 eq pos by (simp add: len)
qed

section \<open>The renderer: the two loops\<close>

lemma removeStale_nodes:
  "fst (removeStale cur ns known) =
     filter (\<lambda>n. case anchorId n of None \<Rightarrow> True | Some i \<Rightarrow> i \<in> cur) ns"
  by (induction ns arbitrary: known) (auto simp: split_beta split: option.splits)

lemma removeStale_known:
  "fst (snd (removeStale cur ns known)) = known - (set (anchorIds ns) - cur)"
  by (induction ns arbitrary: known) (auto simp: split_beta split: option.splits)

lemma removeStale_events:
  "snd (snd (removeStale cur ns known)) = map Removed (filter (\<lambda>i. i \<notin> cur) (anchorIds ns))"
  by (induction ns arbitrary: known) (auto simp: split_beta split: option.splits)

lemma anchorIds_filter:
  "anchorIds (filter (\<lambda>n. case anchorId n of None \<Rightarrow> True | Some i \<Rightarrow> i \<in> cur) ns)
     = filter (\<lambda>i. i \<in> cur) (anchorIds ns)"
  by (induction ns) (auto split: option.splits)

lemma anchorIds_append: "anchorIds (xs @ ys) = anchorIds xs @ anchorIds ys"
  by (induction xs) (auto split: option.splits)

lemma anchorId_updateExisting: "anchorId (updateExisting b n) = anchorId n"
  by (simp add: anchorId_def updateExisting_def)

lemma anchorId_newAnchor: "anchorId (newAnchor b) = Some (bid b)"
  by (simp add: anchorId_def newAnchor_def)

lemma anchorIds_updateFirst:
  "(\<And>n. anchorId (f n) = anchorId n) \<Longrightarrow> anchorIds (updateFirst P f ns) = anchorIds ns"
  by (induction ns) (auto split: option.splits)

lemma length_updateFirst: "length (updateFirst P f ns) = length ns"
  by (induction ns) auto

lemma find_anchor_None: "find (\<lambda>n. anchorId n = Some i) ns = None \<longleftrightarrow> i \<notin> set (anchorIds ns)"
  by (induction ns) (auto split: option.splits)


lemma anchorIds_upd:
  "anchorIds (updateFirst (\<lambda>n. anchorId n = Some i) (updateExisting b) ns) = anchorIds ns"
  by (simp add: anchorIds_updateFirst anchorId_updateExisting)

subsection \<open>The loop over the placements\<close>

lemma renderEach_Cons_Inr:
  assumes "renderEach ns known (b # laid) = Inr (ns', k', ev)"
  obtains (update) e ev' where "selectorSafe (bid b)"
      and "find (\<lambda>n. anchorId n = Some (bid b)) ns = Some e"
      and "renderEach (updateFirst (\<lambda>n. anchorId n = Some (bid b)) (updateExisting b) ns)
             known laid = Inr (ns', k', ev')"
      and "ev = Updated (bid b) # ev'"
  | (create) ev' where "selectorSafe (bid b)"
      and "find (\<lambda>n. anchorId n = Some (bid b)) ns = None"
      and "renderEach (ns @ [newAnchor b]) (insert (bid b) known) laid = Inr (ns', k', ev')"
      and "ev = Created (bid b) # ev'"
  using assms by (auto split: if_splits option.splits sum.splits)



lemma renderEach_unsafe:
  "\<not> selectorSafe (bid b) \<Longrightarrow>
   renderEach ns known (b # laid) = Inl (SelectorNotModelled (bid b))"
  by simp


lemma renderEach_safe:
  "renderEach ns known laid = Inr r \<Longrightarrow> list_all selectorSafe (map bid laid)"
proof (induction laid arbitrary: ns known r)
  case Nil
  show ?case by simp
next
  case (Cons b laid)
  obtain ns' k' ev where r: "r = (ns', k', ev)" by (cases r) auto
  from Cons.prems[unfolded r] show ?case
    by (cases rule: renderEach_Cons_Inr) (use Cons.IH in auto)
qed

lemma renderEach_ids:
  "renderEach ns known laid = Inr (ns', k', ev) \<Longrightarrow>
   set (anchorIds ns') = set (anchorIds ns) \<union> set (map bid laid)"
proof (induction laid arbitrary: ns known ev)
  case Nil
  then show ?case by simp
next
  case (Cons b laid)
  from Cons.prems show ?case
  proof (cases rule: renderEach_Cons_Inr)
    case (update e ev')
    have "bid b \<in> set (anchorIds ns)" using update(2) find_anchor_None[of "bid b" ns] by simp
    then show ?thesis using Cons.IH[OF update(3)] by (auto simp: anchorIds_upd)
  next
    case (create ev')
    show ?thesis using Cons.IH[OF create(3)]
      by (auto simp: anchorIds_append anchorId_newAnchor)
  qed
qed

lemma renderEach_distinct:
  "renderEach ns known laid = Inr (ns', k', ev) \<Longrightarrow> distinct (anchorIds ns) \<Longrightarrow>
   distinct (anchorIds ns')"
proof (induction laid arbitrary: ns known ev)
  case Nil
  then show ?case by simp
next
  case (Cons b laid)
  from Cons.prems(1) show ?case
  proof (cases rule: renderEach_Cons_Inr)
    case (update e ev')
    show ?thesis using Cons.IH[OF update(3)] Cons.prems(2) by (simp add: anchorIds_upd)
  next
    case (create ev')
    have "bid b \<notin> set (anchorIds ns)" using create(2) find_anchor_None[of "bid b" ns] by simp
    then have "distinct (anchorIds (ns @ [newAnchor b]))"
      using Cons.prems(2) by (simp add: anchorIds_append anchorId_newAnchor)
    then show ?thesis using Cons.IH[OF create(3)] by simp
  qed
qed

lemma renderEach_known:
  "renderEach ns known laid = Inr (ns', k', ev) \<Longrightarrow>
   k' = known \<union> (set (map bid laid) - set (anchorIds ns))"
proof (induction laid arbitrary: ns known ev)
  case Nil
  then show ?case by simp
next
  case (Cons b laid)
  from Cons.prems show ?case
  proof (cases rule: renderEach_Cons_Inr)
    case (update e ev')
    have "bid b \<in> set (anchorIds ns)" using update(2) find_anchor_None[of "bid b" ns] by simp
    then show ?thesis using Cons.IH[OF update(3)] by (auto simp: anchorIds_upd)
  next
    case (create ev')
    have "bid b \<notin> set (anchorIds ns)" using create(2) find_anchor_None[of "bid b" ns] by simp
    then show ?thesis using Cons.IH[OF create(3)]
      by (auto simp: anchorIds_append anchorId_newAnchor)
  qed
qed


subsection \<open>When every placement has its anchor\<close>

lemma updateAll_Nil: "updateAll [] ns = ns"
  by (simp add: updateAll_def)

lemma updateAll_Cons:
  "updateAll (b # laid) ns =
     updateAll laid (updateFirst (\<lambda>n. anchorId n = Some (bid b)) (updateExisting b) ns)"
  by (simp add: updateAll_def)

lemma anchorIds_updateAll: "anchorIds (updateAll laid ns) = anchorIds ns"
  by (induction laid arbitrary: ns) (simp_all add: updateAll_Nil updateAll_Cons anchorIds_upd)

lemma length_updateAll: "length (updateAll laid ns) = length ns"
  by (induction laid arbitrary: ns) (simp_all add: updateAll_Nil updateAll_Cons length_updateFirst)













section \<open>The renderer: a pass\<close>


lemma placeAll_bid: "i < length bs \<Longrightarrow> bid (placeAll cx cy placed bs ! i) = bid (bs ! i)"
  by (simp add: placeAll_nth placeOne_def Let_def)

lemma placeAll_bids: "map bid (placeAll cx cy placed bs) = map bid bs"
  by (rule nth_equalityI) (simp_all add: length_placeAll placeAll_bid)

lemma layoutBubbles_bids: "map bid (layoutBubbles bs W H off) = map bid bs"
  by (simp add: layoutBubbles_def placeAll_bids Let_def)

lemma passLayout_bids: "map bid (passLayout data cid el) = map bid data"
proof -
  have "map bid (map (\<lambda>(i, b). b\<lparr>bsize := sizeForIndex i s\<rparr>) (enumerate n data)) = map bid data" for s n
    by (induction data arbitrary: n) simp_all
  then show ?thesis by (simp add: passLayout_def Let_def layoutBubbles_bids)
qed

lemma anchorIds_keptNodes: "anchorIds (keptNodes cur ns) = filter (\<lambda>i. i \<in> cur) (anchorIds ns)"
  by (simp add: keptNodes_def anchorIds_filter)


lemma renderBubbles_struct:
  assumes "document w cid = Some el"
  shows "renderBubbles data cid w =
     (case renderEach (keptNodes (set (map bid data)) (children el))
             (knownSet w cid - (set (anchorIds (children el)) - set (map bid data)))
             (passLayout data cid el) of
        Inl e \<Rightarrow> Inl e
      | Inr (n2, k2, e2) \<Rightarrow>
          Inr (w\<lparr>document := (document w)(cid \<mapsto> el\<lparr>children := n2\<rparr>),
                 renderedIds := (renderedIds w)(cid \<mapsto> k2),
                 lastData := (lastData w)(cid \<mapsto> data)\<rparr>,
               map Removed (filter (\<lambda>i. i \<notin> set (map bid data)) (anchorIds (children el))) @ e2))"
proof -
  let ?cur = "set (map bid data)"
  let ?known = "case renderedIds w cid of None \<Rightarrow> {} | Some k \<Rightarrow> k"
  obtain n1 k1 e1 where rs: "removeStale ?cur (children el) ?known = (n1, k1, e1)"
    by (cases "removeStale ?cur (children el) ?known") auto
  have "fst (removeStale ?cur (children el) ?known) = keptNodes ?cur (children el)"
    by (simp only: removeStale_nodes keptNodes_def)
  then have n1: "n1 = keptNodes ?cur (children el)"
    using rs by simp
  have k1: "k1 = knownSet w cid - (set (anchorIds (children el)) - ?cur)"
    using removeStale_known[of ?cur "children el" ?known] rs by (simp add: knownSet_def)
  have e1: "e1 = map Removed (filter (\<lambda>i. i \<notin> ?cur) (anchorIds (children el)))"
    using removeStale_events[of ?cur "children el" ?known] rs by simp
  have "renderBubbles data cid w =
     (case renderEach n1 k1 (passLayout data cid el) of
        Inl e \<Rightarrow> Inl e
      | Inr (n2, k2, e2) \<Rightarrow>
          Inr (w\<lparr>document := (document w)(cid \<mapsto> el\<lparr>children := n2\<rparr>),
                 renderedIds := (renderedIds w)(cid \<mapsto> k2),
                 lastData := (lastData w)(cid \<mapsto> data)\<rparr>, e1 @ e2))"
    using assms rs unfolding renderBubbles_def passLayout_def Let_def by simp
  then show ?thesis unfolding n1 k1 e1 .
qed

text \<open>A pass that completes, taken apart.\<close>

lemma pass_Inr:
  assumes "document w cid = Some el" and "renderBubbles data cid w = Inr (w', ev)"
  obtains n2 k2 e2 where
    "renderEach (keptNodes (set (map bid data)) (children el))
             (knownSet w cid - (set (anchorIds (children el)) - set (map bid data)))
             (passLayout data cid el) = Inr (n2, k2, e2)"
    and "w' = w\<lparr>document := (document w)(cid \<mapsto> el\<lparr>children := n2\<rparr>),
                renderedIds := (renderedIds w)(cid \<mapsto> k2),
                lastData := (lastData w)(cid \<mapsto> data)\<rparr>"
    and "ev = map Removed (filter (\<lambda>i. i \<notin> set (map bid data)) (anchorIds (children el))) @ e2"
  using assms(2) unfolding renderBubbles_struct[OF assms(1)]
  by (auto split: sum.splits)


lemma pass_safe:
  assumes "document w cid = Some el" and "renderBubbles data cid w = Inr (w', ev)"
  shows "list_all selectorSafe (map bid data)"
proof -
  from assms obtain n2 k2 e2 where
    "renderEach (keptNodes (set (map bid data)) (children el))
             (knownSet w cid - (set (anchorIds (children el)) - set (map bid data)))
             (passLayout data cid el) = Inr (n2, k2, e2)"
    by (rule pass_Inr)
  from renderEach_safe[OF this] show ?thesis by (simp only: passLayout_bids)
qed


lemma pass_ids:
  assumes "document w cid = Some el" and "renderBubbles data cid w = Inr (w', ev)"
  shows "set (anchorIds (containerNodes w' cid)) = set (map bid data)"
proof -
  from assms obtain n2 k2 e2 where
    r: "renderEach (keptNodes (set (map bid data)) (children el))
             (knownSet w cid - (set (anchorIds (children el)) - set (map bid data)))
             (passLayout data cid el) = Inr (n2, k2, e2)"
    and w': "w' = w\<lparr>document := (document w)(cid \<mapsto> el\<lparr>children := n2\<rparr>),
                renderedIds := (renderedIds w)(cid \<mapsto> k2),
                lastData := (lastData w)(cid \<mapsto> data)\<rparr>"
    by (rule pass_Inr)
  have n: "containerNodes w' cid = n2" by (simp add: w' containerNodes_def)
  show ?thesis
    unfolding n renderEach_ids[OF r] anchorIds_keptNodes passLayout_bids by auto
qed

lemma pass_distinct:
  assumes "document w cid = Some el" and "renderBubbles data cid w = Inr (w', ev)"
    and "distinct (anchorIds (children el))"
  shows "distinct (anchorIds (containerNodes w' cid))"
proof -
  from assms(1,2) obtain n2 k2 e2 where
    r: "renderEach (keptNodes (set (map bid data)) (children el))
             (knownSet w cid - (set (anchorIds (children el)) - set (map bid data)))
             (passLayout data cid el) = Inr (n2, k2, e2)"
    and w': "w' = w\<lparr>document := (document w)(cid \<mapsto> el\<lparr>children := n2\<rparr>),
                renderedIds := (renderedIds w)(cid \<mapsto> k2),
                lastData := (lastData w)(cid \<mapsto> data)\<rparr>"
    by (rule pass_Inr)
  have n: "containerNodes w' cid = n2" by (simp add: w' containerNodes_def)
  show ?thesis unfolding n
    by (rule renderEach_distinct[OF r]) (simp add: anchorIds_keptNodes assms(3))
qed

lemma pass_known:
  assumes "document w cid = Some el" and "renderBubbles data cid w = Inr (w', ev)"
  shows "knownSet w' cid =
           (knownSet w cid - (set (anchorIds (children el)) - set (map bid data)))
           \<union> (set (map bid data) - set (anchorIds (children el)))"
proof -
  from assms obtain n2 k2 e2 where
    r: "renderEach (keptNodes (set (map bid data)) (children el))
             (knownSet w cid - (set (anchorIds (children el)) - set (map bid data)))
             (passLayout data cid el) = Inr (n2, k2, e2)"
    and w': "w' = w\<lparr>document := (document w)(cid \<mapsto> el\<lparr>children := n2\<rparr>),
                renderedIds := (renderedIds w)(cid \<mapsto> k2),
                lastData := (lastData w)(cid \<mapsto> data)\<rparr>"
    by (rule pass_Inr)
  have k: "knownSet w' cid = k2" by (simp add: w' knownSet_def)
  show ?thesis
    unfolding k renderEach_known[OF r] anchorIds_keptNodes passLayout_bids by auto
qed


lemma pass_other:
  assumes "renderBubbles data cid w = Inr (w', ev)" and "c \<noteq> cid"
  shows "containerNodes w' c = containerNodes w c" and "knownSet w' c = knownSet w c"
proof -
  have "containerNodes w' c = containerNodes w c \<and> knownSet w' c = knownSet w c"
  proof (cases "document w cid")
    case None
    then show ?thesis using assms(1) by (simp add: renderBubbles_def)
  next
    case (Some el)
    from Some assms(1) show ?thesis
      by (rule pass_Inr) (use assms(2) in \<open>simp add: containerNodes_def knownSet_def\<close>)
  qed
  then show "containerNodes w' c = containerNodes w c" and "knownSet w' c = knownSet w c"
    by simp_all
qed





text \<open>
  The known-set tracks the anchors in a container without anchors and without known ids,
  every completed pass, on any container, keeps it so, and so it does in every state the
  renderer reaches.
\<close>

lemma synced_initial:
  "document w cid = Some el \<Longrightarrow> anchorIds (children el) = [] \<Longrightarrow> renderedIds w cid = None \<Longrightarrow>
   synced w cid"
  by (simp add: synced_def containerNodes_def knownSet_def)


lemma synced_pass_same:
  assumes "document w cid = Some el" and "renderBubbles data cid w = Inr (w', ev)"
    and "synced w cid"
  shows "synced w' cid" and "knownSet w' cid = set (map bid data)"
proof -
  have dist: "distinct (anchorIds (children el))"
    and known: "knownSet w cid = set (anchorIds (children el))"
    using assms(1,3) by (simp_all add: synced_def containerNodes_def)
  show k: "knownSet w' cid = set (map bid data)"
    unfolding pass_known[OF assms(1,2)] known by auto
  show "synced w' cid"
    using pass_distinct[OF assms(1,2) dist] pass_ids[OF assms(1,2)] k
    by (simp add: synced_def)
qed

lemma synced_renderBubbles:
  assumes "renderBubbles data cid w = Inr (w', ev)" and "synced w c"
  shows "synced w' c"
proof (cases "document w cid")
  case None
  then show ?thesis using assms by (simp add: renderBubbles_def)
next
  case (Some el)
  show ?thesis
  proof (cases "c = cid")
    case True
    then show ?thesis using synced_pass_same(1)[OF Some assms(1)] assms(2) by simp
  next
    case False
    from pass_other[OF assms(1) False] show ?thesis using assms(2) by (simp add: synced_def)
  qed
qed

lemma reachable_synced: "reachable w \<Longrightarrow> synced w c"
proof (induction rule: reachable.induct)
  case (initial w)
  then show ?case
    by (cases "document w c") (simp_all add: synced_def containerNodes_def knownSet_def)
next
  case (pass w bubbleData containerId w' ev)
  then show ?case using synced_renderBubbles by blast
qed

section \<open>The renderer: properties of a pass\<close>


text \<open>
  Claim C9. When \<open>getElementById\<close> finds no container, the pass returns at once: the
  state is unchanged, in particular the known-set and the cached data of that container
  id, and nothing is done to any element.
\<close>

theorem render_missing_container:
  assumes "document w containerId = None"
  shows "renderBubbles bubbleData containerId w = Inr (w, [])
       \<and> (case renderBubbles bubbleData containerId w of
             Inl e \<Rightarrow> False
           | Inr (w', ev) \<Rightarrow>
               renderedIds w' containerId = renderedIds w containerId
             \<and> lastData w' containerId = lastData w containerId)"
  using assms by (simp add: renderBubbles_def)

theorem render_missing_container_witness:
  "document freshWorld ''myBubbleField'' = None
   \<and> renderBubbles twoBubbles ''myBubbleField'' freshWorld = Inr (freshWorld, [])"
  using render_missing_container[of freshWorld "''myBubbleField''" twoBubbles]
  by (simp add: freshWorld_def)










section \<open>The first circle\<close>

lemma passLayout_offset:
  assumes "rect_width el \<noteq> 0" and "rect_height el \<noteq> 0"
  shows "passLayout bs cid el =
           layoutBubbles
             (map (\<lambda>(i, b). b\<lparr>bsize := sizeForIndex i (min (rect_width el) (rect_height el) / 832)\<rparr>)
                (enumerate 0 bs))
             (rect_width el) (rect_height el)
             (if cid = ''theirBubbleField'' then js_round (- 0.10 * rect_height el) else 0)"
  using assms by (simp add: passLayout_def Let_def)

lemma size0: "sizeForIndex 0 (85 / 104) = 75"
  by (simp add: sizeForIndex_def BASE_SIZES_def js_round_def)

lemma circle100_safe: "selectorSafe (bid circle100)"
  by (simp add: circle100_def selectorSafe_def)

lemma passLayout_main:
  "passLayout [circle100] ''theirBubbleField'' emptyField =
     [\<lparr>bid = ''a'', ts = None, index = 0, bsize = 75, gradient = ''g'',
       xpos = 412.5, ypos = 234.5, cxpos = 450, cypos = 272\<rparr>]"
  by (simp add: passLayout_def emptyField_def Let_def size0 layoutBubbles_def placeOne_def
        circle100_def js_round_def)

lemma passLayout_panel:
  "passLayout [circle100] ''myBubbleField'' emptyField =
     [\<lparr>bid = ''a'', ts = None, index = 0, bsize = 75, gradient = ''g'',
       xpos = 412.5, ypos = 302.5, cxpos = 450, cypos = 340\<rparr>]"
  by (simp add: passLayout_def emptyField_def Let_def size0 layoutBubbles_def placeOne_def
        circle100_def js_round_def)

lemma render_first_main:
  "renderBubbles [circle100] ''theirBubbleField'' freshWorld =
     Inr (\<lparr>document = [''theirBubbleField'' \<mapsto> emptyField\<lparr>children :=
              [\<lparr>classes = [''bubble-anchor''], data_id = Some ''a'',
                style_left = Some 412.5, style_top = Some 234.5,
                style_width = Some 75, style_height = Some 75, style_bubble_size = Some 75,
                inner = Some \<lparr>background = ''g'', float_delay = 0\<rparr>\<rparr>]\<rparr>],
            renderedIds = [''theirBubbleField'' \<mapsto> {''a''}],
            lastData = [''theirBubbleField'' \<mapsto> [circle100]]\<rparr>,
          [Created ''a''])"
proof -
  have d: "document freshWorld ''theirBubbleField'' = Some emptyField"
    by (simp add: freshWorld_def)
  have s: "selectorSafe ''a''" by (simp add: selectorSafe_def)
  show ?thesis
    unfolding renderBubbles_struct[OF d] passLayout_main
    using s by (simp add: emptyField_def keptNodes_def freshWorld_def knownSet_def newAnchor_def
                 circle100_def)
qed

lemma render_first_panel:
  "renderBubbles [circle100] ''myBubbleField'' panelWorld =
     Inr (\<lparr>document = [''myBubbleField'' \<mapsto> emptyField\<lparr>children :=
              [\<lparr>classes = [''bubble-anchor''], data_id = Some ''a'',
                style_left = Some 412.5, style_top = Some 302.5,
                style_width = Some 75, style_height = Some 75, style_bubble_size = Some 75,
                inner = Some \<lparr>background = ''g'', float_delay = 0\<rparr>\<rparr>]\<rparr>],
            renderedIds = [''myBubbleField'' \<mapsto> {''a''}],
            lastData = [''myBubbleField'' \<mapsto> [circle100]]\<rparr>,
          [Created ''a''])"
proof -
  have d: "document panelWorld ''myBubbleField'' = Some emptyField"
    by (simp add: panelWorld_def)
  have s: "selectorSafe ''a''" by (simp add: selectorSafe_def)
  show ?thesis
    unfolding renderBubbles_struct[OF d] passLayout_panel
    using s by (simp add: emptyField_def keptNodes_def panelWorld_def knownSet_def newAnchor_def
                 circle100_def)
qed

text \<open>
  Claim C6, as stated, fails: with the offset omitted (the default 0, which is also what the
  renderer passes for the side panels) the first circle sits exactly at the vertical
  centre, not above it.
\<close>

theorem first_circle_unbiased_counterexample:
  "\<not> (cypos (layoutBubbles [circle100] 900 680 0 ! 0) < 680 / 2)"
  by (simp add: layoutBubbles_def placeOne_def circle100_def Let_def)

text \<open>
  Claim C6, amended. For a non-empty input the first circle has its centre at
  \<open>(W / 2, H / 2 + cyOffset)\<close> and \<open>x\<close>, \<open>y\<close> are the centre minus the radius; the two earlier
  functions use the fixed biases \<open>- 10\<close> and \<open>- 20\<close>. For a container of non-zero measured
  size, \<open>renderBubbles\<close> lays out with the offset \<open>Math.round(-0.10 * containerH)\<close> in
  \<open>theirBubbleField\<close> and with 0 in any other container (\<open>renderBubbles_struct\<close>: the pass
  runs over \<open>passLayout\<close>). One circle of diameter 100 in a canvas of 900 by 680 is
  centred at (450, 340) with no offset and at (450, 272) with the offset of the main
  field; the first pass with one record on an empty container of that size scales the
  diameter to 75 and creates the anchor at left 412.5 and top 234.5 in the main field, and
  at top 302.5 in a side panel.
\<close>

theorem first_circle_placement:
  assumes "bs \<noteq> []"
  shows "cxpos (layoutBubbles bs W H off ! 0) = W / 2
       \<and> cypos (layoutBubbles bs W H off ! 0) = H / 2 + off
       \<and> xpos (layoutBubbles bs W H off ! 0) = W / 2 - bsize (bs ! 0) / 2
       \<and> ypos (layoutBubbles bs W H off ! 0) = H / 2 + off - bsize (bs ! 0) / 2
       \<and> cxpos (layoutBubbles_fixed bs W H ! 0) = W / 2
       \<and> cypos (layoutBubbles_fixed bs W H ! 0) = H / 2 - 10
       \<and> cxpos (layoutBubbles_spiral bs W H ! 0) = W / 2
       \<and> cypos (layoutBubbles_spiral bs W H ! 0) = H / 2 - 20
       \<and> layoutBubbles [circle100] 900 680 0
           = [\<lparr>bid = ''a'', ts = None, index = 0, bsize = 100, gradient = ''g'',
               xpos = 400, ypos = 290, cxpos = 450, cypos = 340\<rparr>]
       \<and> layoutBubbles [circle100] 900 680 (js_round (- 0.10 * 680))
           = [\<lparr>bid = ''a'', ts = None, index = 0, bsize = 100, gradient = ''g'',
               xpos = 400, ypos = 222, cxpos = 450, cypos = 272\<rparr>]
       \<and> (rect_width el \<noteq> 0 \<and> rect_height el \<noteq> 0 \<longrightarrow>
             passLayout bs cid el =
               layoutBubbles
                 (map (\<lambda>(i, b). b\<lparr>bsize :=
                          sizeForIndex i (min (rect_width el) (rect_height el) / 832)\<rparr>)
                    (enumerate 0 bs))
                 (rect_width el) (rect_height el)
                 (if cid = ''theirBubbleField'' then js_round (- 0.10 * rect_height el) else 0)
           \<and> cxpos (passLayout bs cid el ! 0) = rect_width el / 2
           \<and> cypos (passLayout bs cid el ! 0) =
               rect_height el / 2
               + (if cid = ''theirBubbleField'' then js_round (- 0.10 * rect_height el) else 0))
       \<and> renderBubbles [circle100] ''theirBubbleField'' freshWorld =
           Inr (\<lparr>document = [''theirBubbleField'' \<mapsto> emptyField\<lparr>children :=
                    [\<lparr>classes = [''bubble-anchor''], data_id = Some ''a'',
                      style_left = Some 412.5, style_top = Some 234.5,
                      style_width = Some 75, style_height = Some 75,
                      style_bubble_size = Some 75,
                      inner = Some \<lparr>background = ''g'', float_delay = 0\<rparr>\<rparr>]\<rparr>],
                  renderedIds = [''theirBubbleField'' \<mapsto> {''a''}],
                  lastData = [''theirBubbleField'' \<mapsto> [circle100]]\<rparr>,
                [Created ''a''])
       \<and> renderBubbles [circle100] ''myBubbleField'' panelWorld =
           Inr (\<lparr>document = [''myBubbleField'' \<mapsto> emptyField\<lparr>children :=
                    [\<lparr>classes = [''bubble-anchor''], data_id = Some ''a'',
                      style_left = Some 412.5, style_top = Some 302.5,
                      style_width = Some 75, style_height = Some 75,
                      style_bubble_size = Some 75,
                      inner = Some \<lparr>background = ''g'', float_delay = 0\<rparr>\<rparr>]\<rparr>],
                  renderedIds = [''myBubbleField'' \<mapsto> {''a''}],
                  lastData = [''myBubbleField'' \<mapsto> [circle100]]\<rparr>,
                [Created ''a''])"
proof -
  have r: "js_round (- 0.10 * 680) = - 68" by (simp add: js_round_def)
  have g: "cxpos (layoutBubbles bs' W' H' off' ! 0) = W' / 2
       \<and> cypos (layoutBubbles bs' W' H' off' ! 0) = H' / 2 + off'
       \<and> xpos (layoutBubbles bs' W' H' off' ! 0) = W' / 2 - bsize (bs' ! 0) / 2
       \<and> ypos (layoutBubbles bs' W' H' off' ! 0) = H' / 2 + off' - bsize (bs' ! 0) / 2"
    if "bs' \<noteq> []" for bs' W' H' off'
    using that by (simp add: layoutBubbles_def placeAll_first Let_def)
  have f: "cxpos (layoutBubbles_fixed bs W H ! 0) = W / 2
       \<and> cypos (layoutBubbles_fixed bs W H ! 0) = H / 2 - 10"
    using assms by (simp add: layoutBubbles_fixed_def placeAll_first Let_def)
  have s: "cxpos (layoutBubbles_spiral bs W H ! 0) = W / 2
       \<and> cypos (layoutBubbles_spiral bs W H ! 0) = H / 2 - 20"
    using assms by (simp add: layoutBubbles_spiral_def spiralAll_first Let_def)
  have c1: "layoutBubbles [circle100] 900 680 0
           = [\<lparr>bid = ''a'', ts = None, index = 0, bsize = 100, gradient = ''g'',
               xpos = 400, ypos = 290, cxpos = 450, cypos = 340\<rparr>]"
    by (simp add: layoutBubbles_def placeOne_def circle100_def Let_def)
  have c2: "layoutBubbles [circle100] 900 680 (js_round (- 0.10 * 680))
           = [\<lparr>bid = ''a'', ts = None, index = 0, bsize = 100, gradient = ''g'',
               xpos = 400, ypos = 222, cxpos = 450, cypos = 272\<rparr>]"
    unfolding r by (simp add: layoutBubbles_def placeOne_def circle100_def Let_def)
  have p: "passLayout bs cid el =
               layoutBubbles
                 (map (\<lambda>(i, b). b\<lparr>bsize :=
                          sizeForIndex i (min (rect_width el) (rect_height el) / 832)\<rparr>)
                    (enumerate 0 bs))
                 (rect_width el) (rect_height el)
                 (if cid = ''theirBubbleField'' then js_round (- 0.10 * rect_height el) else 0)
           \<and> cxpos (passLayout bs cid el ! 0) = rect_width el / 2
           \<and> cypos (passLayout bs cid el ! 0) =
               rect_height el / 2
               + (if cid = ''theirBubbleField'' then js_round (- 0.10 * rect_height el) else 0)"
    if nz: "rect_width el \<noteq> 0 \<and> rect_height el \<noteq> 0"
  proof -
    let ?sc = "map (\<lambda>(i, b). b\<lparr>bsize :=
                          sizeForIndex i (min (rect_width el) (rect_height el) / 832)\<rparr>)
                    (enumerate 0 bs)"
    have eq: "passLayout bs cid el =
               layoutBubbles ?sc (rect_width el) (rect_height el)
                 (if cid = ''theirBubbleField'' then js_round (- 0.10 * rect_height el) else 0)"
      using nz by (simp add: passLayout_offset)
    have "?sc \<noteq> []" using assms by (cases bs) simp_all
    from g[OF this] show ?thesis unfolding eq by blast
  qed
  from g[OF assms, of W H off] f s c1 c2 p render_first_main render_first_panel
  show ?thesis by (intro conjI impI) blast+
qed

theorem first_circle_placement_witness:
  "[circle100] \<noteq> []
   \<and> rect_width emptyField \<noteq> 0 \<and> rect_height emptyField \<noteq> 0
   \<and> cxpos (layoutBubbles [circle100] 900 680 (- 68) ! 0) = 450
   \<and> cypos (layoutBubbles [circle100] 900 680 (- 68) ! 0) = 272
   \<and> xpos (layoutBubbles [circle100] 900 680 (- 68) ! 0) = 400
   \<and> ypos (layoutBubbles [circle100] 900 680 (- 68) ! 0) = 222
   \<and> cypos (passLayout [circle100] ''theirBubbleField'' emptyField ! 0) = 272
   \<and> cypos (passLayout [circle100] ''myBubbleField'' emptyField ! 0) = 340"
proof -
  have ne: "[circle100] \<noteq> []" by simp
  have nz: "rect_width emptyField \<noteq> 0 \<and> rect_height emptyField \<noteq> 0"
    by (simp add: emptyField_def)
  have r: "js_round (- 0.10 * rect_height emptyField) = - 68"
    by (simp add: js_round_def emptyField_def)
  have h: "rect_height emptyField = 680" by (simp add: emptyField_def)
  note T = first_circle_placement[OF ne, of 900 680 "- 68" emptyField]
  note l = T[of "''theirBubbleField''", THEN conjunct1]
    T[of "''theirBubbleField''", THEN conjunct2, THEN conjunct1]
    T[of "''theirBubbleField''", THEN conjunct2, THEN conjunct2, THEN conjunct1]
    T[of "''theirBubbleField''", THEN conjunct2, THEN conjunct2, THEN conjunct2, THEN conjunct1]
  note pm = T[of "''theirBubbleField''", THEN conjunct2, THEN conjunct2, THEN conjunct2,
      THEN conjunct2, THEN conjunct2, THEN conjunct2, THEN conjunct2, THEN conjunct2,
      THEN conjunct2, THEN conjunct2, THEN conjunct1, rule_format, OF nz]
  note pp = T[of "''myBubbleField''", THEN conjunct2, THEN conjunct2, THEN conjunct2,
      THEN conjunct2, THEN conjunct2, THEN conjunct2, THEN conjunct2, THEN conjunct2,
      THEN conjunct2, THEN conjunct2, THEN conjunct1, rule_format, OF nz]
  have r': "js_round (- 68) = - 68" by (simp add: js_round_def)
  have m: "cypos (passLayout [circle100] ''theirBubbleField'' emptyField ! 0) = 272"
    using pm[THEN conjunct2, THEN conjunct2] by (simp add: r r' h)
  have q: "cypos (passLayout [circle100] ''myBubbleField'' emptyField ! 0) = 340"
    using pp[THEN conjunct2, THEN conjunct2] by (simp add: h)
  show ?thesis using ne nz l m q by (simp add: circle100_def)
qed

end
